theory Spec2Isabelle
  imports Main "HOL-Library.Multiset"
begin

section \<open>Data model\<close>

text \<open>
  The interface \<open>D2Item\<close> of the source. The optional fields (\<open>id?\<close>, \<open>meta?\<close>,
  \<open>isCustom?\<close>) are options, \<open>None\<close> standing for an absent property. \<open>tags\<close> is
  declared mandatory, but \<open>searchItems\<close> guards it with \<open>item.tags &&\<close>, so it is an
  option as well. \<open>type\<close> is kept a string: the code compares it to the category string
  with \<open>===\<close>. The field \<open>id\<close> is named \<open>item_id\<close>, since \<open>id\<close> is the identity function
  of HOL. A string is a list of 8-bit code units (Latin-1); \<open>meta\<close> is opaque.
\<close>

record D2Item =
  item_id :: "int option"
  type :: string
  name :: string
  description :: string
  tags :: "string list option"
  meta :: "string option"
  isCustom :: "bool option"

text \<open>The rejection values of the promises of \<open>D2Database\<close>: the string
  \<open>"DB not initialized"\<close>, the \<open>ConstraintError\<close> of a failed \<open>store.add\<close>, and the error
  of a failed \<open>indexedDB.open\<close>.\<close>

datatype error = DBNotInitialized | ConstraintError | OpenFailed

text \<open>JavaScript truthiness of \<open>item.isCustom\<close>: absent and \<open>false\<close> are falsy.\<close>

definition truthy :: "bool option \<Rightarrow> bool" where
  "truthy b = (b = Some True)"

section \<open>Strings\<close>

text \<open>\<open>String.prototype.toLowerCase\<close> on code units below 256: the letters A-Z and the
  Latin-1 capitals 0xC0-0xDE (without the multiplication sign 0xD7) move up by 32.\<close>

definition lowerChar :: "char \<Rightarrow> char" where
  "lowerChar c =
     (let n = (of_char c :: nat)
      in if (65 \<le> n \<and> n \<le> 90) \<or> (192 \<le> n \<and> n \<le> 222 \<and> n \<noteq> 215)
         then char_of (n + 32) else c)"

definition toLowerCase :: "string \<Rightarrow> string" where
  "toLowerCase s = map lowerChar s"

fun startsWith :: "string \<Rightarrow> string \<Rightarrow> bool" where
  "startsWith s [] = True"
| "startsWith [] (k # ks) = False"
| "startsWith (c # s) (k # ks) = (c = k \<and> startsWith s ks)"

text \<open>\<open>s.includes(k)\<close>: does \<open>k\<close> occur in \<open>s\<close> at some position.\<close>

fun str_includes :: "string \<Rightarrow> string \<Rightarrow> bool" where
  "str_includes [] k = (k = [])"
| "str_includes (c # s) k = (startsWith (c # s) k \<or> str_includes s k)"

text \<open>The white space that \<open>trim\<close> and \<open>parseInt\<close> strip, among the code units below 256:
  TAB, LF, VT, FF, CR, space and the no-break space.\<close>

definition isWhiteSpace :: "char \<Rightarrow> bool" where
  "isWhiteSpace c = ((of_char c :: nat) \<in> {9, 10, 11, 12, 13, 32, 160})"

definition trim :: "string \<Rightarrow> string" where
  "trim s = rev (dropWhile isWhiteSpace (rev (dropWhile isWhiteSpace s)))"

section \<open>The object store \<open>items\<close>\<close>

text \<open>
  \<open>connect\<close> creates the object store with \<open>{ keyPath: 'id', autoIncrement: true }\<close>.
  Its state is the list of records in ascending key order (the order of \<open>getAll\<close> and of
  a cursor) and the current number of the key generator, which starts at 1. A database
  that was never opened is the empty store.
\<close>

record objectStore =
  records :: "(int \<times> D2Item) list"
  keyGenerator :: int

definition emptyStore :: objectStore where
  "emptyStore = \<lparr>records = [], keyGenerator = 1\<rparr>"

definition keys :: "objectStore \<Rightarrow> int list" where
  "keys s = map fst (records s)"

definition store_getAll :: "objectStore \<Rightarrow> D2Item list" where
  "store_getAll s = map snd (records s)"

fun store_record :: "int \<Rightarrow> D2Item \<Rightarrow> (int \<times> D2Item) list \<Rightarrow> (int \<times> D2Item) list" where
  "store_record k v [] = [(k, v)]"
| "store_record k v ((k', v') # rs) =
     (if k < k' then (k, v) # (k', v') # rs else (k', v') # store_record k v rs)"

text \<open>
  \<open>store.add(value)\<close> on a store with an in-line key and a key generator. A value without
  \<open>id\<close> gets the generator's current number, which then moves on by one; the generator
  hands out no number above \<open>2\<^sup>5\<^sup>3\<close>, and once it stands above, an \<open>add\<close> without \<open>id\<close> is
  a \<open>ConstraintError\<close>. A value that carries an \<open>id\<close> is stored under that key, and the
  generator moves past the key (counted as \<open>2\<^sup>5\<^sup>3\<close> if it is larger) when the key is not
  below the current number. The key is written into the stored value at the key path.
  \<open>add\<close> never overwrites: a key that is already in the store is a \<open>ConstraintError\<close>.
  Keys are numbers; here they are the integers.
\<close>

definition maxGeneratedKey :: int where
  "maxGeneratedKey = 2 ^ 53"

definition store_add :: "D2Item \<Rightarrow> objectStore \<Rightarrow> (error + int) \<times> objectStore" where
  "store_add v s =
     (case item_id v of
        None \<Rightarrow>
          if maxGeneratedKey < keyGenerator s \<or> keyGenerator s \<in> set (keys s)
          then (Inl ConstraintError, s)
          else (Inr (keyGenerator s),
                \<lparr>records = store_record (keyGenerator s)
                             (v\<lparr>item_id := Some (keyGenerator s)\<rparr>) (records s),
                 keyGenerator = keyGenerator s + 1\<rparr>)
      | Some k \<Rightarrow>
          if k \<in> set (keys s) then (Inl ConstraintError, s)
          else (Inr k,
                \<lparr>records = store_record k (v\<lparr>item_id := Some k\<rparr>) (records s),
                 keyGenerator = (if keyGenerator s \<le> min k maxGeneratedKey
                                 then min k maxGeneratedKey + 1 else keyGenerator s)\<rparr>))"

section \<open>The class \<open>D2Database\<close>\<close>

text \<open>
  \<open>db\<close> tells whether \<open>this.db\<close> holds a connection (it is \<open>null\<close> until \<open>connect\<close>
  succeeds); \<open>idb\<close> is the persistent object store of the browser, which exists whether
  or not the connection is open. Every method returns its promise's outcome (\<open>Inl\<close> the
  rejection) together with the state it leaves behind. The promises of \<open>addItem\<close> and
  \<open>searchItems\<close> settle from the handlers of their one request; the promise of
  \<open>updateSeedData\<close> may stay pending, and its outcome is an option, \<open>None\<close> for a promise
  that never settles.
\<close>

record D2Database =
  db :: bool
  idb :: objectStore

definition newD2Database :: "objectStore \<Rightarrow> D2Database" where
  "newD2Database s = \<lparr>db = False, idb = s\<rparr>"

text \<open>\<open>connect\<close>: the argument tells whether \<open>indexedDB.open\<close> succeeds.\<close>

definition connect :: "bool \<Rightarrow> D2Database \<Rightarrow> (error + unit) \<times> D2Database" where
  "connect opens d = (if opens then (Inr (), d\<lparr>db := True\<rparr>) else (Inl OpenFailed, d))"

definition addItem :: "D2Item \<Rightarrow> D2Database \<Rightarrow> (error + int) \<times> D2Database" where
  "addItem item d =
     (if \<not> db d then (Inl DBNotInitialized, d)
      else (case store_add (item\<lparr>isCustom := Some True\<rparr>) (idb d) of
              (Inl e, _) \<Rightarrow> (Inl e, d)
            | (Inr k, s') \<Rightarrow> (Inr k, d\<lparr>idb := s'\<rparr>)))"

definition itemMatches :: "string \<Rightarrow> D2Item \<Rightarrow> bool" where
  "itemMatches lowerKey item =
     (str_includes (toLowerCase (name item)) lowerKey \<or>
      str_includes (toLowerCase (description item)) lowerKey \<or>
      (case tags item of
         None \<Rightarrow> False
       | Some ts \<Rightarrow> list_ex (\<lambda>tag. str_includes (toLowerCase tag) lowerKey) ts))"

definition searchItems ::
  "string \<Rightarrow> string \<Rightarrow> D2Database \<Rightarrow> (error + D2Item list) \<times> D2Database" where
  "searchItems keyword category d =
     (if \<not> db d then (Inl DBNotInitialized, d)
      else
        (let results = store_getAll (idb d);
             results = (if category \<noteq> ''all''
                        then filter (\<lambda>item. type item = category) results else results);
             results = (if keyword \<noteq> []
                        then filter (itemMatches (toLowerCase keyword)) results else results)
         in (Inr results, d)))"

text \<open>The cursor of \<open>updateSeedData\<close>: it visits every record in key order and deletes
  the ones whose \<open>isCustom\<close> is falsy.\<close>

fun cursorSweep :: "(int \<times> D2Item) list \<Rightarrow> (int \<times> D2Item) list" where
  "cursorSweep [] = []"
| "cursorSweep ((k, item) # rest) =
     (if \<not> truthy (isCustom item) then cursorSweep rest else (k, item) # cursorSweep rest)"

text \<open>\<open>newItems.forEach\<close>: each item is marked \<open>isCustom = false\<close> and added. The first
  failing \<open>add\<close> aborts the transaction, so the later requests are never carried out.\<close>

fun addEach :: "D2Item list \<Rightarrow> objectStore \<Rightarrow> (error + unit) \<times> objectStore" where
  "addEach [] s = (Inr (), s)"
| "addEach (item # rest) s =
     (case store_add (item\<lparr>isCustom := Some False\<rparr>) s of
        (Inl e, _) \<Rightarrow> (Inl e, s)
      | (Inr k, s') \<Rightarrow> addEach rest s')"

text \<open>\<open>updateSeedData\<close> runs in one \<open>readwrite\<close> transaction and listens to
  \<open>transaction.oncomplete\<close> (resolve) and \<open>transaction.onerror\<close> (reject), not to
  \<open>onabort\<close>. A failed \<open>add\<close> aborts the transaction, which undoes the deletions and
  additions made so far, and its error event reaches \<open>transaction.onerror\<close>: the promise
  rejects. The argument is what the caller passes for \<open>newItems\<close>: \<open>None\<close> when it is
  \<open>undefined\<close> (\<open>checkAndLoadData\<close> passes \<open>data.items\<close> of whatever \<open>data.json\<close> holds).
  Then \<open>newItems.forEach\<close> throws inside the last success handler of the cursor; the
  transaction aborts and undoes the sweep, no request is left to fail, neither
  \<open>oncomplete\<close> nor \<open>onerror\<close> fires, and the promise stays pending. The same would
  happen if the engine failed to commit a transaction whose requests all succeeded
  (a full disk); the model takes such a transaction to commit.\<close>

definition updateSeedData ::
  "D2Item list option \<Rightarrow> D2Database \<Rightarrow> (error + unit) option \<times> D2Database" where
  "updateSeedData newItems d =
     (if \<not> db d then (Some (Inl DBNotInitialized), d)
      else (case newItems of
              None \<Rightarrow> (None, d)
            | Some items \<Rightarrow>
                (case addEach items ((idb d)\<lparr>records := cursorSweep (records (idb d))\<rparr>) of
                   (Inl e, _) \<Rightarrow> (Some (Inl e), d)
                 | (Inr _, s') \<Rightarrow> (Some (Inr ()), d\<lparr>idb := s'\<rparr>))))"

section \<open>Numbers, \<open>parseInt\<close> and \<open>toString\<close>\<close>

text \<open>
  A version is a JavaScript number with an integer value. The model keeps the integer;
  \<open>\<plusminus>2\<^sup>1\<^sup>0\<^sup>2\<^sup>4\<close> stands for \<open>\<plusminus>Infinity\<close>. \<open>toNumber\<close> is the number nearest to an integer: the
  integer itself below \<open>2\<^sup>5\<^sup>3\<close>, and above that the integer rounded to 53 significant
  bits, a tie going to the even one, and to \<open>Infinity\<close> from \<open>2\<^sup>1\<^sup>0\<^sup>2\<^sup>4\<close> on.
\<close>

function bitLength :: "int \<Rightarrow> nat" where
  "bitLength n = (if n \<le> 0 then 0 else Suc (bitLength (n div 2)))"
  by pat_completeness auto
termination
  by (relation "measure nat") auto

definition infinity :: int where
  "infinity = 2 ^ 1024"

definition toNumber :: "int \<Rightarrow> int" where
  "toNumber m =
     (let a = \<bar>m\<bar>;
          r = (if a < 2 ^ 53 then a
               else let q = 2 ^ (bitLength a - 53); h = a div q; rest = a mod q
                    in (if q < 2 * rest \<or> (q = 2 * rest \<and> odd h) then h + 1 else h) * q)
      in sgn m * min r infinity)"

text \<open>
  The watermark is the string stored under \<open>VERSION_KEY\<close>; \<open>checkAndLoadData\<close> reads it with
  \<open>parseInt(localStorage.getItem(this.VERSION_KEY) || '0')\<close> and writes it with
  \<open>remoteVersion.toString()\<close>. \<open>parseInt\<close> without a radix: leading white space is dropped,
  then an optional sign, then the prefix \<open>0x\<close> or \<open>0X\<close> (which selects radix 16); the
  longest run of digits of the radix is read as an integer and the result is the number
  nearest to it; an empty run is \<open>NaN\<close>, here \<open>None\<close>. Where the run has more than twenty
  digits an engine may take the digits after the twentieth for zeros; the model reads
  them all.
\<close>

definition digitVal :: "char \<Rightarrow> nat" where
  "digitVal c =
     (let n = (of_char c :: nat)
      in if 48 \<le> n \<and> n \<le> 57 then n - 48
         else if 97 \<le> n \<and> n \<le> 122 then n - 87
         else if 65 \<le> n \<and> n \<le> 90 then n - 55
         else 36)"

definition isRadixDigit :: "nat \<Rightarrow> char \<Rightarrow> bool" where
  "isRadixDigit radix c = (digitVal c < radix)"

definition parseInt :: "string \<Rightarrow> int option" where
  "parseInt string =
     (let s = dropWhile isWhiteSpace string;
          (sign, s) = (case s of
                         [] \<Rightarrow> (1, s)
                       | c # r \<Rightarrow> if c = CHR ''-'' then (- 1, r)
                                  else if c = CHR ''+'' then (1, r) else (1, s));
          (radix, s) = (case s of
                          a # b # r \<Rightarrow>
                            if a = CHR ''0'' \<and> (b = CHR ''x'' \<or> b = CHR ''X'')
                            then (16, r) else (10, s)
                        | _ \<Rightarrow> (10, s));
          z = takeWhile (isRadixDigit radix) s
      in if z = [] then None
         else Some (toNumber
                      (sign * foldl (\<lambda>n c. n * int radix + int (digitVal c)) 0 z)))"

text \<open>The decimal digits of an integer that is not negative.\<close>

function digits :: "int \<Rightarrow> string" where
  "digits n =
     (if n < 10 then [char_of (48 + nat n)]
      else digits (n div 10) @ [char_of (48 + nat (n mod 10))])"
  by pat_completeness auto
termination
  by (relation "measure nat") auto

definition decimalLength :: "int \<Rightarrow> nat" where
  "decimalLength n = length (digits n)"

text \<open>
  \<open>Number.prototype.toString\<close> of a number \<open>x\<close> looks for integers \<open>n\<close>, \<open>k\<close> and \<open>s\<close> with
  \<open>k\<close> digits in \<open>s\<close> such that \<open>s \<times> 10\<^sup>n\<^sup>-\<^sup>k\<close> is a decimal whose nearest number is \<open>x\<close>, with
  \<open>k\<close> as small as possible and, among those, \<open>s \<times> 10\<^sup>n\<^sup>-\<^sup>k\<close> nearest to \<open>x\<close> (the even \<open>s\<close> on
  a tie). \<open>candidates x k\<close> lists the triples \<open>(k, s, n - k)\<close> for one \<open>k\<close>: the decimal has
  as many digits as \<open>x\<close> or one more, and \<open>s\<close> is \<open>x\<close> cut after \<open>k\<close> digits or that plus one.
  \<open>firstCandidates\<close> tries \<open>k = 1, 2, \<dots>\<close> in turn; seventeen digits always tell a number
  from its neighbours.
\<close>

definition candidates :: "int \<Rightarrow> nat \<Rightarrow> (nat \<times> int \<times> nat) list" where
  "candidates x k =
     [(k, s, z).
        z \<leftarrow> [decimalLength x - k, decimalLength x + 1 - k],
        s \<leftarrow> [x div 10 ^ z, x div 10 ^ z + 1],
        10 ^ (k - 1) \<le> s \<and> s < 10 ^ k \<and> toNumber (s * 10 ^ z) = x]"

definition nearer ::
  "int \<Rightarrow> nat \<times> int \<times> nat \<Rightarrow> nat \<times> int \<times> nat \<Rightarrow> nat \<times> int \<times> nat" where
  "nearer x c b =
     (case (c, b) of
        ((k, s, z), (k', s', z')) \<Rightarrow>
          (let dc = \<bar>s * 10 ^ z - x\<bar>; db = \<bar>s' * 10 ^ z' - x\<bar>
           in if dc < db \<or> (dc = db \<and> even s \<and> odd s') then c else b))"

primrec firstCandidates :: "int \<Rightarrow> nat list \<Rightarrow> (nat \<times> int \<times> nat) list" where
  "firstCandidates x [] = []"
| "firstCandidates x (k # ks) =
     (case candidates x k of [] \<Rightarrow> firstCandidates x ks | c # cs \<Rightarrow> c # cs)"

definition shortestDigits :: "int \<Rightarrow> (nat \<times> int \<times> nat) option" where
  "shortestDigits x =
     (case firstCandidates x [1..<18] of
        [] \<Rightarrow> None
      | c # rest \<Rightarrow> Some (fold (nearer x) rest c))"

text \<open>
  \<open>toString\<close>: a number up to \<open>2\<^sup>5\<^sup>3\<close> is an integer that is its own shortest decimal,
  and prints as its digits. Above that the \<open>k\<close> digits of \<open>s\<close> are followed by \<open>n - k\<close>
  zeros when \<open>n \<le> 21\<close>; from \<open>n = 22\<close> on (the numbers from \<open>10\<^sup>2\<^sup>1\<close>) the digits are written
  with a point after the first one and the exponent \<open>e+\<close>\<open>(n - 1)\<close>. An integer that no
  number holds does not reach \<open>toString\<close>; the model prints its digits.
\<close>

definition toString :: "int \<Rightarrow> string" where
  "toString m =
     (let a = \<bar>m\<bar>; sign = (if m < 0 then ''-'' else [])
      in if infinity \<le> a then sign @ ''Infinity''
         else if a \<le> 2 ^ 53 then sign @ digits a
         else (case shortestDigits a of
                 None \<Rightarrow> sign @ digits a
               | Some (k, s, z) \<Rightarrow>
                   if k + z \<le> 21 then sign @ digits s @ replicate z (CHR ''0'')
                   else (case digits s of
                           [] \<Rightarrow> sign
                         | c # cs \<Rightarrow>
                             sign @ c # (if cs = [] then [] else CHR ''.'' # cs) @ ''e+'' @
                               digits (int (k + z - 1)))))"

text \<open>The versions that \<open>toString\<close> writes in plain digits: the numbers of magnitude
  below \<open>10\<^sup>2\<^sup>1\<close>.\<close>

definition plainVersion :: "int \<Rightarrow> bool" where
  "plainVersion v = (\<bar>v\<bar> < 10 ^ 21 \<and> toNumber v = v)"

definition decimalValue :: "string \<Rightarrow> int" where
  "decimalValue ds = foldl (\<lambda>n c. n * 10 + int (digitVal c)) 0 ds"

section \<open>The class \<open>App\<close>\<close>

text \<open>
  The state that \<open>checkAndLoadData\<close> and \<open>handleSearch\<close> read and write: the database
  object \<open>this.db\<close> (here \<open>d2db\<close>), \<open>currentCategory\<close>, the \<open>localStorage\<close> slot of
  \<open>VERSION_KEY\<close> (\<open>None\<close> when \<open>getItem\<close> returns \<open>null\<close>), the value of the search input,
  the records rendered into the result container, whether the loading overlay carries
  the class \<open>hidden\<close>, its text (\<open>None\<close> for the text of the page as loaded), and the
  messages passed to \<open>alert\<close>. The model follows the version-gated \<open>checkAndLoadData\<close>
  (the one with \<open>showLoading\<close> and \<open>db_version.json\<close>); the messages stand for its
  three user-visible texts. Where the promise of \<open>updateSeedData\<close> stays pending,
  \<open>checkAndLoadData\<close> is suspended at its \<open>await\<close> for good, and the state it is suspended
  in is the state from then on.
\<close>

datatype message = FetchingNewData int | OptimizingDatabase | UpdateProblem

record App =
  d2db :: D2Database
  currentCategory :: string
  versionSlot :: "string option"
  searchInput :: string
  results :: "D2Item list"
  overlayHidden :: bool
  loadingText :: "message option"
  alerts :: "message list"

text \<open>What a \<open>fetch\<close> followed by \<open>response.json()\<close> delivers: \<open>fetch\<close> throws, the response
  is not \<open>ok\<close>, the body is not JSON (or is the JSON \<open>null\<close>, whose properties cannot be
  read), or the parsed document: the \<open>version\<close> of \<open>db_version.json\<close>, an integer, and of
  \<open>data.json\<close> its \<open>items\<close>, which are \<open>None\<close> when the document has no such array.\<close>

datatype 'a fetched = NetworkError | NotOk | BadJson | Fetched 'a

definition showLoading :: "message \<Rightarrow> App \<Rightarrow> App" where
  "showLoading m app = app\<lparr>loadingText := Some m, overlayHidden := False\<rparr>"

definition hideLoading :: "App \<Rightarrow> App" where
  "hideLoading app = app\<lparr>overlayHidden := True\<rparr>"

definition alert :: "message \<Rightarrow> App \<Rightarrow> App" where
  "alert m app = app\<lparr>alerts := alerts app @ [m]\<rparr>"

definition handleSearch :: "App \<Rightarrow> App" where
  "handleSearch app =
     (let keyword = trim (searchInput app)
      in case searchItems keyword (currentCategory app) (d2db app) of
           (Inr items, d') \<Rightarrow> app\<lparr>d2db := d', results := items\<rparr>
         | (Inl e, d') \<Rightarrow> app\<lparr>d2db := d'\<rparr>)"

text \<open>\<open>localStorage.getItem(this.VERSION_KEY) || '0'\<close>: \<open>null\<close> and the empty string are
  falsy.\<close>

definition getItemOrZero :: "string option \<Rightarrow> string" where
  "getItemOrZero slot = (case slot of None \<Rightarrow> ''0'' | Some s \<Rightarrow> if s = [] then ''0'' else s)"

definition currentVersion :: "App \<Rightarrow> int option" where
  "currentVersion app = parseInt (getItemOrZero (versionSlot app))"

text \<open>\<open>remoteVersion > currentVersion\<close>: a comparison with \<open>NaN\<close> is false.\<close>

definition greaterThan :: "int \<Rightarrow> int option \<Rightarrow> bool" where
  "greaterThan remoteVersion current =
     (case current of None \<Rightarrow> False | Some w \<Rightarrow> w < remoteVersion)"

text \<open>The body of \<open>if (remoteVersion > currentVersion)\<close>: the inner \<open>try\<close>, its \<open>catch\<close>
  (which alerts) and its \<open>finally\<close> (which hides the overlay). The overlay text changes
  once the response is \<open>ok\<close>, before the body is parsed. \<open>catch\<close> and \<open>finally\<close> run when
  the awaited promise settles; while \<open>updateSeedData\<close> is pending neither does.\<close>

definition applyUpdate :: "int \<Rightarrow> D2Item list option fetched \<Rightarrow> App \<Rightarrow> App" where
  "applyUpdate remoteVersion dataFile app =
     (let app1 = showLoading (FetchingNewData remoteVersion) app
      in case dataFile of
           NetworkError \<Rightarrow> hideLoading (alert UpdateProblem app1)
         | NotOk \<Rightarrow> hideLoading (alert UpdateProblem app1)
         | BadJson \<Rightarrow> hideLoading (alert UpdateProblem (showLoading OptimizingDatabase app1))
         | Fetched items \<Rightarrow>
             (let app2 = showLoading OptimizingDatabase app1
              in case updateSeedData items (d2db app2) of
                   (None, d') \<Rightarrow> app2\<lparr>d2db := d'\<rparr>
                 | (Some (Inl e), d') \<Rightarrow> hideLoading (alert UpdateProblem (app2\<lparr>d2db := d'\<rparr>))
                 | (Some (Inr _), d') \<Rightarrow>
                     hideLoading
                       (handleSearch
                          (app2\<lparr>d2db := d', versionSlot := Some (toString remoteVersion)\<rparr>))))"

text \<open>A failing version check is only logged: the outer \<open>catch\<close> changes nothing.\<close>

definition checkAndLoadData ::
  "int fetched \<Rightarrow> D2Item list option fetched \<Rightarrow> App \<Rightarrow> App" where
  "checkAndLoadData versionFile dataFile app =
     (case versionFile of
        Fetched remoteVersion \<Rightarrow>
          if greaterThan remoteVersion (currentVersion app)
          then applyUpdate remoteVersion dataFile app
          else app
      | _ \<Rightarrow> app)"

text \<open>\<open>checkAndLoadData\<close> runs once per start of the application; \<open>startups\<close> is a
  series of starts, each with its own two fetch outcomes.\<close>

fun startups :: "(int fetched \<times> D2Item list option fetched) list \<Rightarrow> App \<Rightarrow> App" where
  "startups [] app = app"
| "startups ((versionFile, dataFile) # rest) app =
     startups rest (checkAndLoadData versionFile dataFile app)"

section \<open>Notions used by the properties\<close>

text \<open>The invariant of the object store that the engine maintains: keys strictly
  ascending, every value carrying its key at the key path, and the key generator above
  every key in use (a key above \<open>2\<^sup>5\<^sup>3\<close> counted as \<open>2\<^sup>5\<^sup>3\<close>).\<close>

definition store_inv :: "objectStore \<Rightarrow> bool" where
  "store_inv s =
     (sorted_wrt (<) (keys s) \<and>
      list_all (\<lambda>(k, v). item_id v = Some k \<and> min k maxGeneratedKey < keyGenerator s)
        (records s))"

text \<open>What is stored for a seed item and for a custom item under key \<open>k\<close>, and the key
  that \<open>add\<close> may give to an item when the generator stands at \<open>gen\<close> or above.\<close>

definition seedRecord :: "int \<Rightarrow> D2Item \<Rightarrow> int \<times> D2Item" where
  "seedRecord k v = (k, v\<lparr>isCustom := Some False, item_id := Some k\<rparr>)"

definition keyFor :: "int \<Rightarrow> int \<Rightarrow> D2Item \<Rightarrow> bool" where
  "keyFor gen k v =
     (case item_id v of None \<Rightarrow> gen \<le> k \<and> k \<le> maxGeneratedKey | Some j \<Rightarrow> k = j)"

definition customRecord :: "int \<Rightarrow> D2Item \<Rightarrow> int \<times> D2Item" where
  "customRecord k v = (k, v\<lparr>isCustom := Some True, item_id := Some k\<rparr>)"

text \<open>The content of a record: every field but \<open>id\<close> and \<open>isCustom\<close>.\<close>

definition content :: "D2Item \<Rightarrow> string \<times> string \<times> string \<times> string list option \<times> string option" where
  "content v = (type v, name v, description v, tags v, meta v)"

text \<open>The object that \<open>App.addItem\<close> builds from the form, and some concrete data.\<close>

definition newItem :: "string \<Rightarrow> string \<Rightarrow> string \<Rightarrow> D2Item" where
  "newItem t n desc =
     \<lparr>item_id = None, type = t, name = n, description = desc, tags = Some [n, t],
      meta = None, isCustom = None\<rparr>"

definition connectedDb :: D2Database where
  "connectedDb = snd (connect True (newD2Database emptyStore))"

definition elRune :: D2Item where
  "elRune = newItem ''rune'' ''El Rune'' ''first rune''"

definition eldRune :: D2Item where
  "eldRune = newItem ''rune'' ''Eld Rune'' ''second rune''"

definition numberedBatch :: "D2Item list" where
  "numberedBatch = [eldRune\<lparr>item_id := Some 1\<rparr>]"

definition customDb :: D2Database where
  "customDb = snd (addItem elRune connectedDb)"

definition numberedDb :: D2Database where
  "numberedDb = snd (updateSeedData (Some numberedBatch) connectedDb)"

definition runeDb :: D2Database where
  "runeDb = snd (updateSeedData (Some [eldRune, newItem ''quest'' ''Amulet'' ''x'']) customDb)"

definition ring :: D2Item where
  "ring = newItem ''quest'' ''Ring'' ''a ring''"

definition fullDb :: D2Database where
  "fullDb = snd (addItem (eldRune\<lparr>item_id := Some (2 ^ 53)\<rparr>) connectedDb)"

definition startApp :: App where
  "startApp = \<lparr>d2db = connectedDb, currentCategory = ''all'', versionSlot = None,
      searchInput = [], results = [], overlayHidden = True, loadingText = None, alerts = []\<rparr>"

definition customApp :: App where
  "customApp = startApp\<lparr>d2db := customDb\<rparr>"

definition versionThreeApp :: App where
  "versionThreeApp = startApp\<lparr>versionSlot := Some ''3''\<rparr>"

definition corruptedApp :: App where
  "corruptedApp = startApp\<lparr>versionSlot := Some ''abc''\<rparr>"

definition versionFiveApp :: App where
  "versionFiveApp = startApp\<lparr>versionSlot := Some ''5''\<rparr>"

text \<open>A start whose remote version, if it has one, is written in plain digits.\<close>

definition plainRun :: "int fetched \<times> D2Item list option fetched \<Rightarrow> bool" where
  "plainRun run = (case fst run of Fetched v \<Rightarrow> plainVersion v | _ \<Rightarrow> True)"

text \<open>A series of \<open>addItem\<close> calls, each awaited before the next, with the outcome of
  every call; the ids that the resolved calls returned; and what one call of the series
  has to show for itself in the final state \<open>d'\<close>: a resolved call has stored its item
  as a custom record under the returned key (the item's own \<open>id\<close> if it had one); a
  rejected call was a \<open>ConstraintError\<close>, of an item whose \<open>id\<close> is in the store or of an
  item without \<open>id\<close> when the key generator has passed \<open>2\<^sup>5\<^sup>3\<close>.\<close>

fun addItems :: "D2Item list \<Rightarrow> D2Database \<Rightarrow> (error + int) list \<times> D2Database" where
  "addItems [] d = ([], d)"
| "addItems (item # rest) d =
     (case addItem item d of
        (r, d1) \<Rightarrow> (case addItems rest d1 of (rs, d2) \<Rightarrow> (r # rs, d2)))"

fun resolvedIds :: "(error + int) list \<Rightarrow> int list" where
  "resolvedIds [] = []"
| "resolvedIds (Inr k # rs) = k # resolvedIds rs"
| "resolvedIds (Inl e # rs) = resolvedIds rs"

definition addOutcome :: "D2Database \<Rightarrow> D2Item \<Rightarrow> error + int \<Rightarrow> bool" where
  "addOutcome d' item r =
     (case r of
        Inr k \<Rightarrow> (item_id item = None \<or> item_id item = Some k) \<and>
                 customRecord k item \<in> set (records (idb d')) \<and>
                 snd (customRecord k item) \<in> set (store_getAll (idb d'))
      | Inl e \<Rightarrow> e = ConstraintError \<and>
                 (case item_id item of
                    None \<Rightarrow> maxGeneratedKey < keyGenerator (idb d')
                  | Some j \<Rightarrow> j \<in> set (keys (idb d'))))"



section \<open>Evaluation of the concrete data\<close>

declare digits.simps [simp del]

declare bitLength.simps [simp del]

lemma infinity_numeral [code]:
  "infinity = 179769313486231590772930519078902473361797697894230657273430081157732675805500963132708477322407536021120113879871393357658789768814416622492847430639474124377767893424865485276302219601246094119453082952085005768838150682342462881473913110540827237163350510684586298239947245938479716304835356329624224137216"
  by (simp add: infinity_def)

lemmas example_defs =
  customDb_def connectedDb_def numberedDb_def numberedBatch_def elRune_def eldRune_def
  newItem_def connect_def newD2Database_def emptyStore_def

lemmas store_defs =
  addItem_def updateSeedData_def store_add_def keys_def store_getAll_def truthy_def
  maxGeneratedKey_def

section \<open>The object store: insertion, sweep and invariant\<close>

text \<open>The invariant holds of the empty store and is kept by every \<open>add\<close>, by the sweep
  and so by \<open>addItem\<close> and \<open>updateSeedData\<close>: it holds of every store these operations
  can produce.\<close>

lemma cursorSweep_filter: "cursorSweep rs = filter (\<lambda>(k, v). truthy (isCustom v)) rs"
  by (induction rs rule: cursorSweep.induct) auto

lemma set_store_record: "set (store_record k v rs) = insert (k, v) (set rs)"
  by (induction k v rs rule: store_record.induct) auto

lemma mset_store_record: "mset (store_record k v rs) = add_mset (k, v) (mset rs)"
  by (induction k v rs rule: store_record.induct) auto

lemma filter_store_record_other:
  "\<not> P (k, v) \<Longrightarrow> filter P (store_record k v rs) = filter P rs"
  by (induction k v rs rule: store_record.induct) auto

lemma sorted_store_record:
  "sorted_wrt (<) (map fst rs) \<Longrightarrow> k \<notin> set (map fst rs) \<Longrightarrow>
   sorted_wrt (<) (map fst (store_record k v rs))"
  by (induction k v rs rule: store_record.induct) (auto simp: set_store_record)

lemma store_add_cases:
  "store_add v s = (r, s') \<Longrightarrow>
   (let k = (case item_id v of None \<Rightarrow> keyGenerator s | Some j \<Rightarrow> j)
    in if k \<in> set (keys s) \<or> (item_id v = None \<and> maxGeneratedKey < keyGenerator s)
       then r = Inl ConstraintError \<and> s' = s
       else r = Inr k \<and>
            records s' = store_record k (v\<lparr>item_id := Some k\<rparr>) (records s) \<and>
            keyGenerator s' =
              (if keyGenerator s \<le> min k maxGeneratedKey then min k maxGeneratedKey + 1
               else keyGenerator s))"
  by (auto simp: store_add_def Let_def split: option.splits if_splits)

lemma store_add_Inr:
  assumes "store_add v s = (Inr k, s')"
  shows "k \<notin> set (keys s)"
    and "records s' = store_record k (v\<lparr>item_id := Some k\<rparr>) (records s)"
    and "keyGenerator s \<le> keyGenerator s'"
    and "k = (case item_id v of None \<Rightarrow> keyGenerator s | Some j \<Rightarrow> j)"
    and "min k maxGeneratedKey < keyGenerator s'"
    and "item_id v = None \<Longrightarrow> k \<le> maxGeneratedKey"
  using store_add_cases [OF assms] by (auto simp: Let_def split: if_splits)

lemma store_add_inv:
  assumes "store_inv s" and "store_add v s = (r, s')"
  shows "store_inv s'"
proof (cases r)
  case (Inl e)
  with store_add_cases [OF assms(2)] have "s' = s"
    by (auto simp: Let_def split: if_splits)
  with assms(1) show ?thesis by simp
next
  case (Inr k)
  note a = store_add_Inr [OF assms(2) [unfolded Inr]]
  have "sorted_wrt (<) (keys s')"
    using a(1,2) assms(1) by (simp add: keys_def store_inv_def sorted_store_record)
  moreover have "list_all (\<lambda>(k, v). item_id v = Some k \<and> min k maxGeneratedKey < keyGenerator s')
      (records s')"
    using a(2,3,5) assms(1)
    by (fastforce simp: store_inv_def list_all_iff set_store_record)
  ultimately show ?thesis by (simp add: store_inv_def)
qed

lemma store_inv_fresh:
  "store_inv s \<Longrightarrow> keyGenerator s \<le> maxGeneratedKey \<Longrightarrow> keyGenerator s \<notin> set (keys s)"
  by (fastforce simp: store_inv_def keys_def list_all_iff)

lemma store_inv_distinct: "store_inv s \<Longrightarrow> distinct (keys s)"
  by (simp add: store_inv_def strict_sorted_iff)

lemma keyFor_mono: "keyFor g k v \<Longrightarrow> g' \<le> g \<Longrightarrow> keyFor g' k v"
  by (auto simp: keyFor_def split: option.splits)

lemma addEach_Inr:
  "addEach batch s = (Inr u, s') \<Longrightarrow>
   \<exists>ks. list_all2 (keyFor (keyGenerator s)) ks batch \<and>
        mset (records s') = mset (records s) + mset (map2 seedRecord ks batch) \<and>
        keyGenerator s \<le> keyGenerator s'"
proof (induction batch arbitrary: s)
  case Nil
  then show ?case by simp
next
  case (Cons v rest)
  from Cons.prems obtain k s1 where
    add: "store_add (v\<lparr>isCustom := Some False\<rparr>) s = (Inr k, s1)" and
    rest: "addEach rest s1 = (Inr u, s')"
    by (auto split: prod.splits sum.splits)
  note a = store_add_Inr [OF add]
  from Cons.IH [OF rest] obtain ks where
    ks: "list_all2 (keyFor (keyGenerator s1)) ks rest"
        "mset (records s') = mset (records s1) + mset (map2 seedRecord ks rest)"
        "keyGenerator s1 \<le> keyGenerator s'"
    by blast
  have g: "keyGenerator s \<le> keyGenerator s1" using a(3) .
  have "keyFor (keyGenerator s) k v"
    using a(4,6) by (auto simp: keyFor_def split: option.splits)
  moreover have "list_all2 (keyFor (keyGenerator s)) ks rest"
    using ks(1) g by (auto elim!: list_all2_mono intro: keyFor_mono)
  moreover have "mset (records s') =
      mset (records s) + mset (map2 seedRecord (k # ks) (v # rest))"
    using ks(2) a(2) by (simp add: mset_store_record seedRecord_def)
  ultimately have "list_all2 (keyFor (keyGenerator s)) (k # ks) (v # rest) \<and>
      mset (records s') = mset (records s) + mset (map2 seedRecord (k # ks) (v # rest)) \<and>
      keyGenerator s \<le> keyGenerator s'"
    using g ks(3) by simp
  then show ?case by blast
qed

lemma addEach_inv: "store_inv s \<Longrightarrow> addEach batch s = (r, s') \<Longrightarrow> store_inv s'"
proof (induction batch arbitrary: s)
  case Nil
  then show ?case by simp
next
  case (Cons v rest)
  obtain r1 s1 where add: "store_add (v\<lparr>isCustom := Some False\<rparr>) s = (r1, s1)"
    by (cases "store_add (v\<lparr>isCustom := Some False\<rparr>) s")
  show ?case
  proof (cases r1)
    case (Inl e)
    with Cons.prems add show ?thesis by simp
  next
    case (Inr k)
    with Cons.prems add have "addEach rest s1 = (r, s')" by simp
    moreover have "store_inv s1" using store_add_inv [OF Cons.prems(1) add] .
    ultimately show ?thesis by (rule Cons.IH [rotated])
  qed
qed

lemma addEach_custom:
  "addEach batch s = (Inr u, s') \<Longrightarrow>
   filter (\<lambda>(k, v). truthy (isCustom v)) (records s') =
   filter (\<lambda>(k, v). truthy (isCustom v)) (records s)"
proof (induction batch arbitrary: s)
  case Nil
  then show ?case by simp
next
  case (Cons v rest)
  from Cons.prems obtain k s1 where
    add: "store_add (v\<lparr>isCustom := Some False\<rparr>) s = (Inr k, s1)" and
    rest: "addEach rest s1 = (Inr u, s')"
    by (auto split: prod.splits sum.splits)
  have "filter (\<lambda>(k, v). truthy (isCustom v)) (records s1) =
        filter (\<lambda>(k, v). truthy (isCustom v)) (records s)"
    using store_add_Inr(2) [OF add] by (simp add: filter_store_record_other truthy_def)
  with Cons.IH [OF rest] show ?case by simp
qed

lemma store_inv_empty: "store_inv emptyStore"
  by (simp add: store_inv_def emptyStore_def keys_def)

lemma store_inv_sweep:
  "store_inv s \<Longrightarrow> store_inv (s\<lparr>records := cursorSweep (records s)\<rparr>)"
  by (auto simp: store_inv_def keys_def cursorSweep_filter list_all_iff sorted_wrt_map
           intro: sorted_wrt_filter)

lemma updateSeedData_cases:
  assumes "db d" and "updateSeedData newItems d = (r, d')"
  shows "(newItems = None \<and> r = None \<and> d' = d) \<or>
         (\<exists>batch e s. newItems = Some batch \<and> r = Some (Inl e) \<and> d' = d \<and>
            addEach batch ((idb d)\<lparr>records := cursorSweep (records (idb d))\<rparr>) = (Inl e, s)) \<or>
         (\<exists>batch s'. newItems = Some batch \<and> r = Some (Inr ()) \<and> d' = d\<lparr>idb := s'\<rparr> \<and>
            addEach batch ((idb d)\<lparr>records := cursorSweep (records (idb d))\<rparr>) = (Inr (), s'))"
  using assms by (auto simp: updateSeedData_def split: prod.splits sum.splits option.splits)

lemma updateSeedData_resolved:
  assumes "updateSeedData newItems d = (Some (Inr u), d')"
  shows "\<exists>batch s'. newItems = Some batch \<and> db d \<and> d' = d\<lparr>idb := s'\<rparr> \<and>
            addEach batch ((idb d)\<lparr>records := cursorSweep (records (idb d))\<rparr>) = (Inr (), s')"
  using assms by (auto simp: updateSeedData_def split: prod.splits sum.splits option.splits if_splits)

lemma updateSeedData_inv:
  assumes "store_inv (idb d)" and "updateSeedData newItems d = (r, d')"
  shows "store_inv (idb d')"
proof (cases "db d")
  case False
  with assms show ?thesis by (simp add: updateSeedData_def)
next
  case True
  from updateSeedData_cases [OF True assms(2)] show ?thesis
  proof (elim disjE exE conjE)
    assume "d' = d"
    with assms(1) show ?thesis by simp
  next
    fix batch e s assume "d' = d"
    with assms(1) show ?thesis by simp
  next
    fix batch s' assume d': "d' = d\<lparr>idb := s'\<rparr>"
      and a: "addEach batch ((idb d)\<lparr>records := cursorSweep (records (idb d))\<rparr>) = (Inr (), s')"
    from addEach_inv [OF store_inv_sweep [OF assms(1)] a] d' show ?thesis by simp
  qed
qed

section \<open>Custom records survive a seed update\<close>

text \<open>
  C1. \<open>updateSeedData\<close>, from any state of the store and for any batch, leaves the custom
  records (those whose \<open>isCustom\<close> is truthy) exactly as they were: the same keys, the
  same values, in the same order. In particular every custom record that was in the
  store before the call is in the store after it.
\<close>

theorem updateSeedData_keeps_custom:
  "filter (\<lambda>(k, v). truthy (isCustom v)) (records (idb (snd (updateSeedData newItems d)))) =
   filter (\<lambda>(k, v). truthy (isCustom v)) (records (idb d)) \<and>
   (\<forall>r \<in> set (records (idb d)).
      truthy (isCustom (snd r)) \<longrightarrow> r \<in> set (records (idb (snd (updateSeedData newItems d)))))"
proof -
  let ?P = "\<lambda>(k, v). truthy (isCustom v)"
  let ?d' = "snd (updateSeedData newItems d)"
  have eq: "filter ?P (records (idb ?d')) = filter ?P (records (idb d))"
  proof (cases "db d")
    case False
    then show ?thesis by (simp add: updateSeedData_def)
  next
    case True
    obtain r d' where u: "updateSeedData newItems d = (r, d')"
      by (cases "updateSeedData newItems d")
    from updateSeedData_cases [OF True u] show ?thesis
    proof (elim disjE exE conjE)
      assume "d' = d"
      with u show ?thesis by simp
    next
      fix batch e s assume "d' = d"
      with u show ?thesis by simp
    next
      fix batch s' assume d': "d' = d\<lparr>idb := s'\<rparr>"
        and a: "addEach batch ((idb d)\<lparr>records := cursorSweep (records (idb d))\<rparr>) = (Inr (), s')"
      from addEach_custom [OF a] have "filter ?P (records s') = filter ?P (records (idb d))"
        by (simp add: cursorSweep_filter)
      with u d' show ?thesis by simp
    qed
  qed
  have "r \<in> set (records (idb ?d'))"
    if "r \<in> set (records (idb d))" and "truthy (isCustom (snd r))" for r
  proof -
    from that have "r \<in> set (filter ?P (records (idb d)))" by (simp add: case_prod_beta)
    with eq have "r \<in> set (filter ?P (records (idb ?d')))" by simp
    then show ?thesis by simp
  qed
  with eq show ?thesis by blast
qed

theorem updateSeedData_keeps_custom_witness:
  "customRecord 1 elRune \<in> set (records (idb customDb)) \<and>
   truthy (isCustom (snd (customRecord 1 elRune))) \<and>
   customRecord 1 elRune \<in> set (records (idb (snd (updateSeedData (Some [eldRune]) customDb))))"
proof -
  have m: "customRecord 1 elRune \<in> set (records (idb customDb))"
    by (simp add: example_defs store_defs customRecord_def)
  have t: "truthy (isCustom (snd (customRecord 1 elRune)))"
    by (simp add: customRecord_def truthy_def)
  from updateSeedData_keeps_custom [of "Some [eldRune]" customDb] m t show ?thesis by blast
qed


lemma map2_seedRecord_fst: "length ks = length batch \<Longrightarrow> map fst (map2 seedRecord ks batch) = ks"
  by (induction ks batch rule: list_induct2) (auto simp: seedRecord_def)

lemma map2_seedRecord_content:
  "length ks = length batch \<Longrightarrow> map (content \<circ> snd) (map2 seedRecord ks batch) = map content batch"
  by (induction ks batch rule: list_induct2) (auto simp: seedRecord_def content_def)

lemma map2_seedRecord_seed:
  "filter (\<lambda>(k, v). \<not> truthy (isCustom v)) (map2 seedRecord ks batch) = map2 seedRecord ks batch"
  by (auto simp: filter_id_conv seedRecord_def truthy_def dest!: set_zip_leftD)

lemma keyFor_fresh:
  "store_inv s \<Longrightarrow> keyFor (keyGenerator s) k v \<Longrightarrow> item_id v = None \<Longrightarrow> k \<notin> set (keys s)"
  by (fastforce simp: store_inv_def keyFor_def keys_def list_all_iff)

lemma updateSeedData_seed_lemma:
  assumes inv: "store_inv (idb d)" and u: "updateSeedData (Some batch) d = (Some (Inr ()), d')"
  shows "\<exists>ks. list_all2 (keyFor (keyGenerator (idb d))) ks batch \<and>
              list_all2 (\<lambda>k v. item_id v = None \<longrightarrow> k \<notin> set (keys (idb d))) ks batch \<and>
              distinct ks \<and>
              mset (filter (\<lambda>(k, v). \<not> truthy (isCustom v)) (records (idb d'))) =
                mset (map2 seedRecord ks batch)"
proof -
  let ?seed = "\<lambda>(k, v). \<not> truthy (isCustom v)"
  let ?s0 = "(idb d)\<lparr>records := cursorSweep (records (idb d))\<rparr>"
  from updateSeedData_resolved [OF u] obtain s' where
    d': "d' = d\<lparr>idb := s'\<rparr>" and a: "addEach batch ?s0 = (Inr (), s')"
    by auto
  from addEach_Inr [OF a] obtain ks where
    kf: "list_all2 (keyFor (keyGenerator (idb d))) ks batch" and
    ms: "mset (records s') = mset (records ?s0) + mset (map2 seedRecord ks batch)"
    by auto
  have len: "length ks = length batch" using kf by (rule list_all2_lengthD)
  have "store_inv s'" using addEach_inv [OF store_inv_sweep [OF inv] a] .
  then have "distinct (map fst (records s'))" using store_inv_distinct by (simp add: keys_def)
  moreover have "mset (map fst (records s')) = mset (map fst (records ?s0) @ ks)"
  proof -
    have "image_mset fst (mset (map2 seedRecord ks batch)) = mset ks"
      using map2_seedRecord_fst [OF len] by (metis mset_map)
    then have "image_mset fst (mset (records s')) = image_mset fst (mset (records ?s0)) + mset ks"
      using ms by simp
    then show ?thesis by (simp only: mset_map mset_append)
  qed
  ultimately have "distinct (map fst (records ?s0) @ ks)"
    using mset_eq_imp_distinct_iff by blast
  then have dist: "distinct ks" by simp
  have "filter ?seed (records ?s0) = []"
    by (auto simp: cursorSweep_filter filter_empty_conv)
  then have old: "filter_mset ?seed (mset (records ?s0)) = {#}"
    by (metis mset_filter mset.simps(1))
  have new: "filter_mset ?seed (mset (map2 seedRecord ks batch)) = mset (map2 seedRecord ks batch)"
    using map2_seedRecord_seed [of ks batch] by (metis mset_filter)
  have "mset (filter ?seed (records s')) = filter_mset ?seed (mset (records s'))"
    by (simp only: mset_filter)
  also have "\<dots> = filter_mset ?seed (mset (records ?s0)) +
                   filter_mset ?seed (mset (map2 seedRecord ks batch))"
    by (simp only: ms filter_union_mset)
  also have "\<dots> = mset (map2 seedRecord ks batch)"
    by (simp only: old new add_0)
  finally have seed: "mset (filter ?seed (records (idb d'))) = mset (map2 seedRecord ks batch)"
    using d' by simp
  have fresh: "list_all2 (\<lambda>k v. item_id v = None \<longrightarrow> k \<notin> set (keys (idb d))) ks batch"
    using kf keyFor_fresh [OF inv] by (auto elim!: list_all2_mono)
  from kf fresh dist seed show ?thesis by blast
qed

lemma getAll_seed_filter:
  "filter (\<lambda>v. \<not> truthy (isCustom v)) (store_getAll s) =
   map snd (filter (\<lambda>(k, v). \<not> truthy (isCustom v)) (records s))"
  by (simp add: store_getAll_def filter_map comp_def case_prod_unfold)

lemma runeDb_eval:
  "runeDb = \<lparr>db = True, idb = \<lparr>records = [customRecord 1 elRune, seedRecord 2 eldRune,
       seedRecord 3 (newItem ''quest'' ''Amulet'' ''x'')], keyGenerator = 4\<rparr>\<rparr>"
  by (simp add: runeDb_def example_defs store_defs customRecord_def seedRecord_def)

section \<open>The seed records after a seed update\<close>

text \<open>
  C2, with the ids as the code assigns them. Let the store satisfy its invariant and
  let \<open>updateSeedData\<close> resolve for a batch. Then the records whose \<open>isCustom\<close> is falsy
  are exactly the items of the batch, one record per item, each with \<open>isCustom = false\<close>
  and under a key of its own (the keys of the store are distinct), whatever seed
  records were there before. An item without \<open>id\<close> gets a generated key, not below the
  key generator and so different from every key of the store before the call; an item
  that carries an \<open>id\<close> is stored under that \<open>id\<close>.
\<close>

theorem updateSeedData_replaces_seed:
  assumes "store_inv (idb d)" and "updateSeedData (Some batch) d = (Some (Inr ()), d')"
  shows "(\<exists>ks. list_all2 (keyFor (keyGenerator (idb d))) ks batch \<and>
              list_all2 (\<lambda>k v. item_id v = None \<longrightarrow> k \<notin> set (keys (idb d))) ks batch \<and>
              distinct ks \<and>
              mset (filter (\<lambda>(k, v). \<not> truthy (isCustom v)) (records (idb d'))) =
                mset (map2 seedRecord ks batch)) \<and>
        mset (map content (filter (\<lambda>v. \<not> truthy (isCustom v)) (store_getAll (idb d')))) =
          mset (map content batch) \<and>
        list_all (\<lambda>v. isCustom v = Some False)
          (filter (\<lambda>v. \<not> truthy (isCustom v)) (store_getAll (idb d'))) \<and>
        distinct (keys (idb d'))"
proof (intro conjI)
  from updateSeedData_seed_lemma [OF assms]
  show "\<exists>ks. list_all2 (keyFor (keyGenerator (idb d))) ks batch \<and>
              list_all2 (\<lambda>k v. item_id v = None \<longrightarrow> k \<notin> set (keys (idb d))) ks batch \<and>
              distinct ks \<and>
              mset (filter (\<lambda>(k, v). \<not> truthy (isCustom v)) (records (idb d'))) =
                mset (map2 seedRecord ks batch)" .
next
  from updateSeedData_seed_lemma [OF assms] obtain ks where
    kf: "list_all2 (keyFor (keyGenerator (idb d))) ks batch" and
    seed: "mset (filter (\<lambda>(k, v). \<not> truthy (isCustom v)) (records (idb d'))) =
           mset (map2 seedRecord ks batch)"
    by blast
  have len: "length ks = length batch" using kf by (rule list_all2_lengthD)
  have "mset (map content (filter (\<lambda>v. \<not> truthy (isCustom v)) (store_getAll (idb d')))) =
        image_mset (content \<circ> snd)
          (mset (filter (\<lambda>(k, v). \<not> truthy (isCustom v)) (records (idb d'))))"
    by (simp add: getAll_seed_filter multiset.map_comp)
  also have "\<dots> = mset (map (content \<circ> snd) (map2 seedRecord ks batch))"
    by (simp only: seed mset_map)
  also have "\<dots> = mset (map content batch)"
    by (simp only: map2_seedRecord_content [OF len])
  finally show "mset (map content (filter (\<lambda>v. \<not> truthy (isCustom v)) (store_getAll (idb d')))) =
          mset (map content batch)" .
next
  from updateSeedData_seed_lemma [OF assms] obtain ks where
    seed: "mset (filter (\<lambda>(k, v). \<not> truthy (isCustom v)) (records (idb d'))) =
           mset (map2 seedRecord ks batch)"
    by blast
  have "set (filter (\<lambda>(k, v). \<not> truthy (isCustom v)) (records (idb d'))) =
        set (map2 seedRecord ks batch)"
    using seed by (rule mset_eq_setD)
  then have "\<forall>r \<in> set (filter (\<lambda>(k, v). \<not> truthy (isCustom v)) (records (idb d'))).
               isCustom (snd r) = Some False"
    by (auto simp: seedRecord_def dest!: set_zip_leftD)
  then show "list_all (\<lambda>v. isCustom v = Some False)
          (filter (\<lambda>v. \<not> truthy (isCustom v)) (store_getAll (idb d')))"
    unfolding getAll_seed_filter list_all_iff by auto
next
  from updateSeedData_inv [OF assms] show "distinct (keys (idb d'))"
    by (rule store_inv_distinct)
qed

theorem updateSeedData_replaces_seed_witness:
  "store_inv (idb runeDb) \<and>
   records (idb runeDb) = [customRecord 1 elRune, seedRecord 2 eldRune,
     seedRecord 3 (newItem ''quest'' ''Amulet'' ''x'')] \<and>
   updateSeedData (Some [ring]) runeDb =
     (Some (Inr ()), runeDb\<lparr>idb := \<lparr>records = [customRecord 1 elRune, seedRecord 4 ring],
                                     keyGenerator = 5\<rparr>\<rparr>) \<and>
   mset (map content (filter (\<lambda>v. \<not> truthy (isCustom v))
     (store_getAll (idb (runeDb\<lparr>idb := \<lparr>records = [customRecord 1 elRune, seedRecord 4 ring],
                                     keyGenerator = 5\<rparr>\<rparr>))))) = mset (map content [ring])"
proof -
  have i: "store_inv (idb runeDb)"
    by (simp add: runeDb_eval store_inv_def keys_def customRecord_def seedRecord_def
        maxGeneratedKey_def)
  have r: "records (idb runeDb) = [customRecord 1 elRune, seedRecord 2 eldRune,
     seedRecord 3 (newItem ''quest'' ''Amulet'' ''x'')]"
    by (simp add: runeDb_eval)
  have u: "updateSeedData (Some [ring]) runeDb =
     (Some (Inr ()), runeDb\<lparr>idb := \<lparr>records = [customRecord 1 elRune, seedRecord 4 ring],
                                     keyGenerator = 5\<rparr>\<rparr>)"
    by (simp add: runeDb_eval store_defs customRecord_def seedRecord_def ring_def newItem_def
        elRune_def)
  from updateSeedData_replaces_seed [OF i u] i r u show ?thesis by simp
qed

text \<open>An id that comes with the batch is not a fresh one. The batch
  \<open>numberedBatch\<close> (one item, \<open>id = 1\<close>), applied to the store that an earlier application
  of the same batch left behind, resolves, and its record is stored under the key 1
  that was in the store before the call: the id is the item's own, not a fresh one.\<close>

theorem seed_id_not_fresh:
  "fst (updateSeedData (Some numberedBatch) numberedDb) = Some (Inr ()) \<and>
   keys (idb numberedDb) = [1] \<and>
   records (idb (snd (updateSeedData (Some numberedBatch) numberedDb))) = [seedRecord 1 eldRune]"
  by (simp add: example_defs store_defs seedRecord_def)

lemma addItem_cases:
  assumes "db d" and "addItem item d = (r, d')"
  shows "let k = (case item_id item of None \<Rightarrow> keyGenerator (idb d) | Some j \<Rightarrow> j)
         in if k \<in> set (keys (idb d)) \<or>
               (item_id item = None \<and> maxGeneratedKey < keyGenerator (idb d))
            then r = Inl ConstraintError \<and> d' = d
            else r = Inr k \<and> db d' \<and>
                 records (idb d') = store_record k (snd (customRecord k item)) (records (idb d)) \<and>
                 keyGenerator (idb d) \<le> keyGenerator (idb d')"
proof -
  obtain r1 s1 where add: "store_add (item\<lparr>isCustom := Some True\<rparr>) (idb d) = (r1, s1)"
    by (cases "store_add (item\<lparr>isCustom := Some True\<rparr>) (idb d)")
  from store_add_cases [OF add] assms add show ?thesis
    by (auto simp: addItem_def Let_def customRecord_def split: if_splits sum.splits)
qed

lemma addItem_inv:
  assumes "store_inv (idb d)" and "addItem item d = (r, d')"
  shows "store_inv (idb d')"
proof (cases "db d")
  case False
  with assms show ?thesis by (simp add: addItem_def)
next
  case True
  obtain r1 s1 where add: "store_add (item\<lparr>isCustom := Some True\<rparr>) (idb d) = (r1, s1)"
    by (cases "store_add (item\<lparr>isCustom := Some True\<rparr>) (idb d)")
  from store_add_inv [OF assms(1) add] assms add True show ?thesis
    by (auto simp: addItem_def split: sum.splits)
qed

text \<open>One call, on a connected database whose store satisfies the invariant: what decides
  between resolving and rejecting, and what each leaves behind.\<close>

lemma addItem_rejects:
  assumes "db d" and "store_inv (idb d)"
    and "case item_id item of None \<Rightarrow> maxGeneratedKey < keyGenerator (idb d)
                            | Some j \<Rightarrow> j \<in> set (keys (idb d))"
  shows "addItem item d = (Inl ConstraintError, d)"
proof -
  obtain r d' where step: "addItem item d = (r, d')" by (cases "addItem item d")
  from addItem_cases [OF assms(1) step] assms(3) step show ?thesis
    by (auto simp: Let_def split: option.splits if_splits)
qed

lemma addItem_resolves:
  assumes "db d" and "store_inv (idb d)"
    and "case item_id item of None \<Rightarrow> keyGenerator (idb d) \<le> maxGeneratedKey
                            | Some j \<Rightarrow> j \<notin> set (keys (idb d))"
  shows "\<exists>k d'. addItem item d = (Inr k, d') \<and>
           k = (case item_id item of None \<Rightarrow> keyGenerator (idb d) | Some j \<Rightarrow> j) \<and>
           k \<notin> set (keys (idb d)) \<and> db d' \<and> store_inv (idb d') \<and>
           records (idb d') = store_record k (snd (customRecord k item)) (records (idb d))"
proof -
  obtain r d' where step: "addItem item d = (r, d')" by (cases "addItem item d")
  have free: "(case item_id item of None \<Rightarrow> keyGenerator (idb d) | Some j \<Rightarrow> j)
                \<notin> set (keys (idb d))"
    using assms(3) store_inv_fresh [OF assms(2)] by (auto split: option.splits)
  from addItem_cases [OF assms(1) step] assms(3) free addItem_inv [OF assms(2) step] step
  show ?thesis
    by (auto simp: Let_def split: option.splits if_splits)
qed

lemma addItems_sound:
  "db d \<Longrightarrow> store_inv (idb d) \<Longrightarrow> addItems items d = (rs, d') \<Longrightarrow>
   list_all2 (addOutcome d') items rs \<and>
   distinct (resolvedIds rs) \<and>
   set (keys (idb d')) = set (keys (idb d)) \<union> set (resolvedIds rs) \<and>
   set (resolvedIds rs) \<inter> set (keys (idb d)) = {} \<and>
   set (records (idb d)) \<subseteq> set (records (idb d')) \<and>
   keyGenerator (idb d) \<le> keyGenerator (idb d') \<and>
   db d' \<and> store_inv (idb d')"
proof (induction items arbitrary: d rs)
  case Nil
  then show ?case by simp
next
  case (Cons item rest)
  obtain r d1 where step: "addItem item d = (r, d1)" by (cases "addItem item d")
  obtain rs' where rest: "addItems rest d1 = (rs', d')" and rs: "rs = r # rs'"
    using Cons.prems(3) step by (auto split: prod.splits)
  note c = addItem_cases [OF Cons.prems(1) step]
  have inv1: "store_inv (idb d1)" using addItem_inv [OF Cons.prems(2) step] .
  have db1: "db d1" using c Cons.prems(1) by (auto simp: Let_def split: if_splits)
  note ih = Cons.IH [OF db1 inv1 rest]
  show ?case
  proof (cases r)
    case (Inl e)
    with c have same: "d1 = d" and e: "e = ConstraintError"
      and why: "(case item_id item of None \<Rightarrow> keyGenerator (idb d) | Some j \<Rightarrow> j)
                     \<in> set (keys (idb d)) \<or>
                (item_id item = None \<and> maxGeneratedKey < keyGenerator (idb d))"
      by (auto simp: Let_def split: if_splits)
    have "case item_id item of None \<Rightarrow> maxGeneratedKey < keyGenerator (idb d)
                             | Some j \<Rightarrow> j \<in> set (keys (idb d))"
    proof (cases "item_id item")
      case None
      have "maxGeneratedKey < keyGenerator (idb d)"
      proof (rule ccontr)
        assume "\<not> maxGeneratedKey < keyGenerator (idb d)"
        then have le: "keyGenerator (idb d) \<le> maxGeneratedKey" by simp
        from store_inv_fresh [OF Cons.prems(2) le] why None le show False by simp
      qed
      with None show ?thesis by simp
    next
      case (Some j)
      with why show ?thesis by simp
    qed
    then have "case item_id item of None \<Rightarrow> maxGeneratedKey < keyGenerator (idb d')
                             | Some j \<Rightarrow> j \<in> set (keys (idb d'))"
      using ih same by (auto split: option.splits)
    with ih same e Inl rs show ?thesis by (simp add: addOutcome_def)
  next
    case (Inr k)
    with c have k: "k = (case item_id item of None \<Rightarrow> keyGenerator (idb d) | Some j \<Rightarrow> j)"
      and fresh: "k \<notin> set (keys (idb d))"
      and recs: "records (idb d1) = store_record k (snd (customRecord k item)) (records (idb d))"
      and gen: "keyGenerator (idb d) \<le> keyGenerator (idb d1)"
      by (auto simp: Let_def split: if_splits)
    have set1: "set (records (idb d1)) = insert (customRecord k item) (set (records (idb d)))"
      using recs by (simp add: set_store_record customRecord_def)
    have keys1: "set (keys (idb d1)) = insert k (set (keys (idb d)))"
      using set1 by (auto simp: keys_def customRecord_def)
    have "customRecord k item \<in> set (records (idb d'))" using ih set1 by auto
    then have "addOutcome d' item r"
      using k Inr by (force simp: addOutcome_def store_getAll_def split: option.splits)
    moreover have "k \<notin> set (resolvedIds rs')" using ih keys1 by auto
    moreover have "set (resolvedIds rs') \<inter> set (keys (idb d)) = {}" using ih keys1 by auto
    moreover have "set (records (idb d)) \<subseteq> set (records (idb d'))" using ih set1 by auto
    moreover have "set (keys (idb d')) = set (keys (idb d)) \<union> set (resolvedIds (r # rs'))"
      using ih keys1 Inr by auto
    moreover have "keyGenerator (idb d) \<le> keyGenerator (idb d')" using ih gen by simp
    ultimately show ?thesis using ih fresh Inr rs by simp
  qed
qed

section \<open>Custom inserts\<close>

text \<open>
  C7, with the ids as the code assigns them. Take a connected database whose store
  satisfies its invariant. One call of \<open>addItem\<close>: an item without \<open>id\<close> is stored under
  the number of the key generator, which no stored record has, unless the generator
  has passed \<open>2\<^sup>5\<^sup>3\<close>; an item that carries an \<open>id\<close> is stored under that \<open>id\<close> unless a
  stored record has it. A stored item has \<open>isCustom = true\<close>, whatever \<open>isCustom\<close> the caller
  supplied, the call returns its key, and the database stays connected with the
  invariant kept, so the same holds for the next call. In the two other cases the call
  is rejected with \<open>ConstraintError\<close> and the database is unchanged. Any series of calls:
  the returned ids differ from each other and from every id that was in the store
  before the series, every stored record is in the store after the whole series,
  nothing that was in the store is lost, and a search with empty keyword and category
  \<open>all\<close> returns all of the store.
\<close>

theorem addItems_custom:
  assumes "db d" and "store_inv (idb d)"
  shows "((case item_id item of
             None \<Rightarrow> keyGenerator (idb d) \<le> maxGeneratedKey
           | Some j \<Rightarrow> j \<notin> set (keys (idb d))) \<longrightarrow>
          (\<exists>k d'. addItem item d = (Inr k, d') \<and>
             k = (case item_id item of None \<Rightarrow> keyGenerator (idb d) | Some j \<Rightarrow> j) \<and>
             k \<notin> set (keys (idb d)) \<and> db d' \<and> store_inv (idb d') \<and>
             records (idb d') =
               store_record k (item\<lparr>isCustom := Some True, item_id := Some k\<rparr>)
                 (records (idb d)))) \<and>
         ((case item_id item of
             None \<Rightarrow> maxGeneratedKey < keyGenerator (idb d)
           | Some j \<Rightarrow> j \<in> set (keys (idb d))) \<longrightarrow>
          addItem item d = (Inl ConstraintError, d)) \<and>
         (\<forall>items rs d'. addItems items d = (rs, d') \<longrightarrow>
            list_all2 (addOutcome d') items rs \<and>
            distinct (resolvedIds rs) \<and>
            set (resolvedIds rs) \<inter> set (keys (idb d)) = {} \<and>
            set (records (idb d)) \<subseteq> set (records (idb d')) \<and>
            db d' \<and> store_inv (idb d') \<and>
            searchItems [] ''all'' d' = (Inr (store_getAll (idb d')), d'))"
proof -
  have A: "(case item_id item of
             None \<Rightarrow> keyGenerator (idb d) \<le> maxGeneratedKey
           | Some j \<Rightarrow> j \<notin> set (keys (idb d))) \<longrightarrow>
          (\<exists>k d'. addItem item d = (Inr k, d') \<and>
             k = (case item_id item of None \<Rightarrow> keyGenerator (idb d) | Some j \<Rightarrow> j) \<and>
             k \<notin> set (keys (idb d)) \<and> db d' \<and> store_inv (idb d') \<and>
             records (idb d') =
               store_record k (item\<lparr>isCustom := Some True, item_id := Some k\<rparr>)
                 (records (idb d)))"
  proof
    assume "case item_id item of None \<Rightarrow> keyGenerator (idb d) \<le> maxGeneratedKey
                               | Some j \<Rightarrow> j \<notin> set (keys (idb d))"
    from addItem_resolves [OF assms this]
    show "\<exists>k d'. addItem item d = (Inr k, d') \<and>
             k = (case item_id item of None \<Rightarrow> keyGenerator (idb d) | Some j \<Rightarrow> j) \<and>
             k \<notin> set (keys (idb d)) \<and> db d' \<and> store_inv (idb d') \<and>
             records (idb d') =
               store_record k (item\<lparr>isCustom := Some True, item_id := Some k\<rparr>)
                 (records (idb d))"
      by (simp add: customRecord_def)
  qed
  have B: "(case item_id item of
             None \<Rightarrow> maxGeneratedKey < keyGenerator (idb d)
           | Some j \<Rightarrow> j \<in> set (keys (idb d))) \<longrightarrow>
          addItem item d = (Inl ConstraintError, d)"
    using addItem_rejects [OF assms] by blast
  have C: "\<forall>items rs d'. addItems items d = (rs, d') \<longrightarrow>
            list_all2 (addOutcome d') items rs \<and>
            distinct (resolvedIds rs) \<and>
            set (resolvedIds rs) \<inter> set (keys (idb d)) = {} \<and>
            set (records (idb d)) \<subseteq> set (records (idb d')) \<and>
            db d' \<and> store_inv (idb d') \<and>
            searchItems [] ''all'' d' = (Inr (store_getAll (idb d')), d')"
  proof (intro allI impI)
    fix items rs d' assume run: "addItems items d = (rs, d')"
    note s = addItems_sound [OF assms run]
    from s have "db d'" by simp
    then have "searchItems [] ''all'' d' = (Inr (store_getAll (idb d')), d')"
      by (simp add: searchItems_def)
    with s show "list_all2 (addOutcome d') items rs \<and>
            distinct (resolvedIds rs) \<and>
            set (resolvedIds rs) \<inter> set (keys (idb d)) = {} \<and>
            set (records (idb d)) \<subseteq> set (records (idb d')) \<and>
            db d' \<and> store_inv (idb d') \<and>
            searchItems [] ''all'' d' = (Inr (store_getAll (idb d')), d')"
      by simp
  qed
  show ?thesis by (rule conjI [OF A conjI [OF B C]])
qed

theorem addItems_custom_witness:
  "db connectedDb \<and> store_inv (idb connectedDb) \<and>
   item_id elRune = None \<and> keyGenerator (idb connectedDb) = 1 \<and>
   addItem elRune connectedDb = (Inr 1, customDb) \<and>
   records (idb customDb) = [customRecord 1 elRune] \<and>
   addItem (eldRune\<lparr>item_id := Some 7\<rparr>) customDb =
     (Inr 7, customDb\<lparr>idb := \<lparr>records = [customRecord 1 elRune, customRecord 7 eldRune],
                                keyGenerator = 8\<rparr>\<rparr>) \<and>
   fst (addItems [elRune, elRune\<lparr>item_id := Some 1\<rparr>, eldRune] connectedDb) =
     [Inr 1, Inl ConstraintError, Inr 2] \<and>
   distinct (resolvedIds [Inr 1, Inl ConstraintError, Inr 2]) \<and>
   fst (searchItems [] ''all''
          (snd (addItems [elRune, elRune\<lparr>item_id := Some 1\<rparr>, eldRune] connectedDb))) =
     Inr [snd (customRecord 1 elRune), snd (customRecord 2 eldRune)]"
proof -
  let ?items = "[elRune, elRune\<lparr>item_id := Some 1\<rparr>, eldRune]"
  have c: "db connectedDb" by (simp add: example_defs)
  have i: "store_inv (idb connectedDb)" by (simp add: example_defs store_inv_def keys_def)
  have n: "item_id elRune = None" by (simp add: example_defs)
  have g: "keyGenerator (idb connectedDb) = 1" by (simp add: example_defs)
  have one: "addItem elRune connectedDb = (Inr 1, customDb)"
    using addItems_custom [OF c i, of elRune] n g
    by (auto simp: customDb_def maxGeneratedKey_def)
  have rc: "records (idb customDb) = [customRecord 1 elRune]"
    by (simp add: example_defs store_defs customRecord_def)
  have two: "addItem (eldRune\<lparr>item_id := Some 7\<rparr>) customDb =
     (Inr 7, customDb\<lparr>idb := \<lparr>records = [customRecord 1 elRune, customRecord 7 eldRune],
                                keyGenerator = 8\<rparr>\<rparr>)"
    by (simp add: example_defs store_defs customRecord_def)
  have r: "addItems ?items connectedDb =
     ([Inr 1, Inl ConstraintError, Inr 2],
      connectedDb\<lparr>idb := \<lparr>records = [customRecord 1 elRune, customRecord 2 eldRune],
                            keyGenerator = 3\<rparr>\<rparr>)"
    by (simp add: example_defs store_defs customRecord_def)
  let ?d' = "connectedDb\<lparr>idb := \<lparr>records = [customRecord 1 elRune, customRecord 2 eldRune],
                            keyGenerator = 3\<rparr>\<rparr>"
  from addItems_custom [OF c i, of elRune] r
  have s: "searchItems [] ''all'' ?d' = (Inr (store_getAll (idb ?d')), ?d')" by blast
  have f: "fst (addItems ?items connectedDb) = [Inr 1, Inl ConstraintError, Inr 2]"
    unfolding r by simp
  have q: "fst (searchItems [] ''all'' (snd (addItems ?items connectedDb))) =
     Inr [snd (customRecord 1 elRune), snd (customRecord 2 eldRune)]"
    unfolding r snd_conv s by (simp add: store_getAll_def)
  have e: "distinct (resolvedIds [Inr 1, Inl ConstraintError, Inr 2])" by simp
  from c i n g one rc two f e q show ?thesis by (intro conjI)
qed

text \<open>Not every call stores its record. On the connected store that holds one record,
  under the key 1, \<open>addItem\<close> of an item with \<open>id = 1\<close> is rejected with
  \<open>ConstraintError\<close> and stores nothing. And once an item with \<open>id = 2\<^sup>5\<^sup>3\<close> is in the
  store, \<open>addItem\<close> of an item without \<open>id\<close> is rejected as well.\<close>

theorem addItem_id_taken:
  "db customDb \<and> keys (idb customDb) = [1] \<and>
   addItem (eldRune\<lparr>item_id := Some 1\<rparr>) customDb = (Inl ConstraintError, customDb) \<and>
   db fullDb \<and> keys (idb fullDb) = [2 ^ 53] \<and> item_id elRune = None \<and>
   addItem elRune fullDb = (Inl ConstraintError, fullDb)"
  by (simp add: example_defs fullDb_def store_defs)

section \<open>Before the connection\<close>

text \<open>
  C9. A new \<open>D2Database\<close> has no connection, and a failed \<open>connect\<close> leaves it so. Without
  a connection \<open>addItem\<close>, \<open>searchItems\<close> and \<open>updateSeedData\<close> all reject with
  \<open>"DB not initialized"\<close> and leave the database, the stored records included, unchanged.
\<close>

theorem not_initialized:
  "\<not> db (newD2Database s) \<and> snd (connect False d) = d \<and>
   (\<not> db d \<longrightarrow>
      addItem item d = (Inl DBNotInitialized, d) \<and>
      searchItems keyword category d = (Inl DBNotInitialized, d) \<and>
      updateSeedData newItems d = (Some (Inl DBNotInitialized), d))"
  by (simp add: newD2Database_def connect_def addItem_def searchItems_def updateSeedData_def)

theorem not_initialized_witness:
  "\<not> db (newD2Database emptyStore) \<and>
   addItem elRune (newD2Database emptyStore) = (Inl DBNotInitialized, newD2Database emptyStore) \<and>
   searchItems ''el'' ''all'' (newD2Database emptyStore) =
     (Inl DBNotInitialized, newD2Database emptyStore) \<and>
   updateSeedData (Some [eldRune]) (newD2Database emptyStore) =
     (Some (Inl DBNotInitialized), newD2Database emptyStore)"
  using not_initialized [of emptyStore "newD2Database emptyStore" elRune "''el''" "''all''"
      "Some [eldRune]"]
  by simp

section \<open>Printing and parsing a version\<close>

lemma digitVal_digit: "d < 10 \<Longrightarrow> digitVal (char_of (48 + d :: nat)) = d"
  by (simp add: digitVal_def Let_def)

lemma digit_decimal:
  "d < 10 \<Longrightarrow> 48 \<le> (of_char (char_of (48 + d :: nat)) :: nat) \<and>
     (of_char (char_of (48 + d :: nat)) :: nat) \<le> 57"
  by simp

lemma digits_decimal: "c \<in> set (digits n) \<Longrightarrow> 48 \<le> (of_char c :: nat) \<and> (of_char c :: nat) \<le> 57"
proof (induction n rule: digits.induct)
  case (1 n)
  show ?case
  proof (cases "n < 10")
    case True
    then have "nat n < 10" by simp
    from digit_decimal [OF this] True "1.prems" show ?thesis
      by (simp add: digits.simps [of n] del: of_char_of)
  next
    case False
    have "nat (n mod 10) < 10" by simp
    from digit_decimal [OF this] False "1.prems" "1.IH" show ?thesis
      by (auto simp: digits.simps [of n] simp del: of_char_of)
  qed
qed

lemma digits_not_Nil: "digits n \<noteq> []"
  by (simp add: digits.simps [of n])

lemma decimalValue_append:
  "decimalValue (xs @ ys) = foldl (\<lambda>n c. n * 10 + int (digitVal c)) (decimalValue xs) ys"
  by (simp add: decimalValue_def)

lemma digits_value: "0 \<le> n \<Longrightarrow> decimalValue (digits n) = n"
proof (induction n rule: digits.induct)
  case (1 n)
  show ?case
  proof (cases "n < 10")
    case True
    then have "nat n < 10" by simp
    from digitVal_digit [OF this] True "1.prems" show ?thesis
      by (simp add: decimalValue_def digits.simps [of n])
  next
    case False
    have "nat (n mod 10) < 10" by simp
    note d = digitVal_digit [OF this]
    from False "1.prems" have "0 \<le> n div 10" by simp
    from "1.IH" [OF False this] have "decimalValue (digits (n div 10)) = n div 10" .
    with False d show ?thesis
      by (simp add: decimalValue_append digits.simps [of n])
  qed
qed

lemma zeros_value:
  "foldl (\<lambda>n c. n * 10 + int (digitVal c)) a (replicate z (CHR ''0'')) = a * 10 ^ z"
  by (induction z arbitrary: a) (simp_all add: digitVal_def)

lemma digits_zeros_value:
  "0 \<le> s \<Longrightarrow> decimalValue (digits s @ replicate z (CHR ''0'')) = s * 10 ^ z"
  by (simp add: decimalValue_append digits_value zeros_value)

lemma decimal_facts:
  assumes "48 \<le> (of_char c :: nat)" and "(of_char c :: nat) \<le> 57"
  shows "\<not> isWhiteSpace c" and "c \<noteq> CHR ''-''" and "c \<noteq> CHR ''+''"
    and "c \<noteq> CHR ''x''" and "c \<noteq> CHR ''X''" and "isRadixDigit 10 c"
  using assms by (auto simp: isWhiteSpace_def isRadixDigit_def digitVal_def Let_def)

lemma parseInt_decimal:
  assumes "ds \<noteq> []"
    and all: "\<forall>x \<in> set ds. 48 \<le> (of_char x :: nat) \<and> (of_char x :: nat) \<le> 57"
  shows "parseInt ds = Some (toNumber (decimalValue ds))"
    and "parseInt (CHR ''-'' # ds) = Some (toNumber (- decimalValue ds))"
proof -
  obtain c r where cr: "ds = c # r" using assms(1) by (cases ds) auto
  from all cr have c: "48 \<le> (of_char c :: nat)" "(of_char c :: nat) \<le> 57" by auto
  have tw: "takeWhile (isRadixDigit 10) (c # r) = c # r"
    using all cr by (intro takeWhile_eq_all_conv [THEN iffD2]) (auto intro: decimal_facts(6))
  have nox: "\<not> (\<exists>b r'. r = b # r' \<and> (b = CHR ''x'' \<or> b = CHR ''X''))"
    using all cr decimal_facts(4,5) by fastforce
  have ws: "\<not> isWhiteSpace CHR ''-''" by (simp add: isWhiteSpace_def)
  show "parseInt ds = Some (toNumber (decimalValue ds))"
    unfolding parseInt_def cr decimalValue_def
    using decimal_facts(1-3) [OF c] nox tw
    by (cases r) (auto simp: Let_def)
  show "parseInt (CHR ''-'' # ds) = Some (toNumber (- decimalValue ds))"
    unfolding parseInt_def cr decimalValue_def
    using nox tw ws
    by (cases r) (auto simp: Let_def)
qed

lemma decimal_digits_zeros:
  "\<forall>x \<in> set (digits s @ replicate z (CHR ''0'')). 48 \<le> (of_char x :: nat) \<and> (of_char x :: nat) \<le> 57"
  using digits_decimal [of _ s] by auto

lemma parseInt_signed:
  assumes "0 \<le> s"
  shows "parseInt ((if m < 0 then ''-'' else []) @ digits s @ replicate z (CHR ''0'')) =
         Some (toNumber ((if m < (0::int) then - 1 else 1) * (s * 10 ^ z)))"
proof -
  have ne: "digits s @ replicate z (CHR ''0'') \<noteq> []" by (simp add: digits_not_Nil)
  note p = parseInt_decimal [OF ne decimal_digits_zeros]
  show ?thesis
    using p by (simp add: digits_zeros_value [OF assms])
qed

lemma toNumber_minus: "toNumber (- m) = - toNumber m"
  by (simp add: toNumber_def Let_def sgn_minus)

lemma bitLength_le: "n < 2 ^ j \<Longrightarrow> bitLength n \<le> j"
proof (induction j arbitrary: n)
  case 0
  then have "n \<le> 0" by simp
  then show ?case by (simp add: bitLength.simps [of n])
next
  case (Suc j)
  then have "n div 2 < 2 ^ j" by simp
  from Suc.IH [OF this] show ?case by (simp add: bitLength.simps [of n])
qed

lemma fold_nearer_mem: "fold (nearer x) rest c \<in> set (c # rest)"
proof (induction rest arbitrary: c)
  case Nil
  then show ?case by simp
next
  case (Cons r rest)
  have "nearer x r c = r \<or> nearer x r c = c"
    by (auto simp: nearer_def Let_def split: prod.splits)
  with Cons.IH [of "nearer x r c"] show ?case by auto
qed

lemma candidates_mem:
  "(k, s, z) \<in> set (candidates x k') \<Longrightarrow>
   k = k' \<and> (z = decimalLength x - k \<or> z = decimalLength x + 1 - k) \<and>
   10 ^ (k - 1) \<le> s \<and> s < 10 ^ k \<and> toNumber (s * 10 ^ z) = x"
  by (auto simp: candidates_def split: if_splits)

lemma firstCandidates_mem:
  "firstCandidates x ks = c # cs \<Longrightarrow> \<exists>k \<in> set ks. candidates x k = c # cs"
  by (induction ks) (auto split: list.splits)

lemma shortestDigits_Some:
  assumes "shortestDigits x = Some (k, s, z)"
  shows "1 \<le> k \<and> k \<le> 17 \<and> (z = decimalLength x - k \<or> z = decimalLength x + 1 - k) \<and>
         10 ^ (k - 1) \<le> s \<and> s < 10 ^ k \<and> toNumber (s * 10 ^ z) = x"
proof -
  from assms obtain c rest where
    f: "firstCandidates x [1..<18] = c # rest" and
    r: "(k, s, z) = fold (nearer x) rest c"
    by (auto simp: shortestDigits_def split: list.splits)
  from firstCandidates_mem [OF f]
  obtain k' where k': "k' \<in> set [1..<18]" and cs: "candidates x k' = c # rest"
    by blast
  have "(k, s, z) \<in> set (c # rest)" unfolding r by (rule fold_nearer_mem)
  then have "(k, s, z) \<in> set (candidates x k')" using cs by simp
  from candidates_mem [OF this] k' show ?thesis by auto
qed

lemma digits_length_le: "0 < j \<Longrightarrow> n < 10 ^ j \<Longrightarrow> length (digits n) \<le> j"
proof (induction n arbitrary: j rule: digits.induct)
  case (1 n)
  show ?case
  proof (cases "n < 10")
    case True
    with "1.prems" show ?thesis by (simp add: digits.simps [of n])
  next
    case False
    obtain i where j: "j = Suc i" using "1.prems"(1) by (cases j) auto
    have "0 < i"
    proof (rule ccontr)
      assume "\<not> 0 < i"
      with j "1.prems"(2) False show False by simp
    qed
    moreover have "n div 10 < 10 ^ i"
    proof -
      have "\<And>c::int. n < 10 * c \<Longrightarrow> n div 10 < c" by presburger
      with "1.prems"(2) j show ?thesis by simp
    qed
    ultimately have "length (digits (n div 10)) \<le> i" using "1.IH" [OF False] by blast
    with False j show ?thesis by (simp add: digits.simps [of n])
  qed
qed

lemma infinity_large: "(10::int) ^ 21 \<le> infinity"
proof -
  have "(10::int) ^ 21 \<le> 2 ^ 74" by simp
  also have "(2::int) ^ 74 \<le> 2 ^ 1024" by (rule power_increasing) simp_all
  finally show ?thesis by (simp add: infinity_def)
qed

lemma toNumber_ge_1e21:
  assumes lo: "10 ^ 21 \<le> p" and hi: "p < (10::int) ^ 22"
  shows "10 ^ 21 \<le> toNumber p"
proof -
  let ?q = "(2::int) ^ (bitLength p - 53)"
  have "(10::int) ^ 22 < 2 ^ 74" by simp
  with hi have "p < 2 ^ 74" by linarith
  then have "bitLength p \<le> 74" by (rule bitLength_le)
  then have e: "bitLength p - 53 \<le> 21" by simp
  have "?q dvd 2 ^ 21" using e by (rule le_imp_power_dvd)
  moreover have "(2::int) ^ 21 dvd 10 ^ 21"
  proof -
    have "(10::int) ^ 21 = 2 ^ 21 * 5 ^ 21" by simp
    then show ?thesis by (metis dvd_triv_left)
  qed
  ultimately have "?q dvd 10 ^ 21" by (rule dvd_trans)
  then obtain c where c: "(10::int) ^ 21 = ?q * c" by (auto simp: dvd_def)
  have qpos: "0 < ?q" by simp
  have "c \<le> p div ?q"
  proof -
    have "c * ?q \<le> p" using lo c by (simp add: mult.commute)
    then have "(c * ?q) div ?q \<le> p div ?q" using qpos by (rule zdiv_mono1)
    then show ?thesis by simp
  qed
  then have cq: "c * ?q \<le> (p div ?q) * ?q" using qpos by (simp add: mult_right_mono)
  have "(10::int) ^ 21 = c * ?q" using c by (simp only: mult.commute)
  also note cq
  finally have low: "10 ^ 21 \<le> (p div ?q) * ?q" .
  have big: "\<not> p < 2 ^ 53"
  proof -
    have "(2::int) ^ 53 \<le> 10 ^ 21" by simp
    with lo show ?thesis by linarith
  qed
  let ?r = "(if ?q < 2 * (p mod ?q) \<or> (?q = 2 * (p mod ?q) \<and> odd (p div ?q))
             then p div ?q + 1 else p div ?q) * ?q"
  have "(p div ?q) * ?q \<le> ?r"
  proof -
    have "p div ?q \<le> (if ?q < 2 * (p mod ?q) \<or> (?q = 2 * (p mod ?q) \<and> odd (p div ?q))
             then p div ?q + 1 else p div ?q)" by simp
    then show ?thesis using qpos by (rule mult_right_mono [OF _ less_imp_le])
  qed
  with low have r: "10 ^ 21 \<le> ?r" by linarith
  have pos: "0 < p"
  proof -
    have "(0::int) < 10 ^ 21" by simp
    with lo show ?thesis by linarith
  qed
  then have a: "\<bar>p\<bar> = p" "sgn p = 1" by simp_all
  have "toNumber p = min ?r infinity"
    unfolding toNumber_def Let_def a using big by simp
  then show ?thesis using r infinity_large by simp
qed

lemma shortestDigits_plain:
  assumes sd: "shortestDigits x = Some (k, s, z)" and x: "x < 10 ^ 21"
  shows "k + z \<le> 21"
proof (rule ccontr)
  assume "\<not> k + z \<le> 21"
  then have over: "22 \<le> k + z" by simp
  note f = shortestDigits_Some [OF sd]
  have nd: "decimalLength x \<le> 21"
    unfolding decimalLength_def using x by (intro digits_length_le) simp_all
  from f over nd have kz: "k + z = 22" by auto
  from f have s: "10 ^ (k - 1) \<le> s" "s < 10 ^ k" and k: "1 \<le> k"
    and v: "toNumber (s * 10 ^ z) = x"
    by auto
  have "(10::int) ^ 21 = 10 ^ (k - 1) * 10 ^ z"
  proof -
    have "21 = (k - 1) + z" using kz k by simp
    then show ?thesis by (simp only: power_add)
  qed
  also have "\<dots> \<le> s * 10 ^ z" using s(1) by (simp add: mult_right_mono)
  finally have lo: "10 ^ 21 \<le> s * 10 ^ z" .
  have "s * 10 ^ z < 10 ^ k * 10 ^ z" using s(2) by simp
  also have "\<dots> = (10::int) ^ 22" using kz by (simp flip: power_add)
  finally have hi: "s * 10 ^ z < 10 ^ 22" .
  from toNumber_ge_1e21 [OF lo hi] v have "(10::int) ^ 21 \<le> x" by simp
  with x show False by simp
qed

lemma parseInt_toString:
  assumes "plainVersion v"
  shows "parseInt (toString v) = Some v"
proof -
  let ?a = "\<bar>v\<bar>"
  let ?sign = "if v < 0 then ''-'' else []"
  let ?sg = "if v < 0 then - 1 else (1::int)"
  from assms have small: "\<bar>v\<bar> < 10 ^ 21" and num: "toNumber v = v"
    by (simp_all add: plainVersion_def)
  have v: "?sg * ?a = v" by simp
  have a0: "0 \<le> ?a" by simp
  have fin: "\<not> infinity \<le> ?a"
    using small infinity_large by linarith
  have own: "parseInt (?sign @ digits ?a) = Some v"
  proof -
    from parseInt_signed [OF a0, of v 0]
    have "parseInt (?sign @ digits ?a) = Some (toNumber (?sg * ?a))"
      by simp
    with v num show ?thesis by simp
  qed
  show ?thesis
  proof (cases "?a \<le> 2 ^ 53")
    case True
    with fin own show ?thesis by (simp add: toString_def Let_def)
  next
    case False
    show ?thesis
    proof (cases "shortestDigits ?a")
      case None
      with False fin own show ?thesis by (simp add: toString_def Let_def)
    next
      case (Some t)
      obtain k s z where t: "t = (k, s, z)" by (cases t)
      from shortestDigits_plain [OF Some [unfolded t] small] have plain: "k + z \<le> 21" .
      from shortestDigits_Some [OF Some [unfolded t]]
      have val: "toNumber (s * 10 ^ z) = ?a" and s1: "10 ^ (k - 1) \<le> s" by simp_all
      have s0: "0 \<le> s"
      proof -
        have "(0::int) \<le> 10 ^ (k - 1)" by simp
        with s1 show ?thesis by linarith
      qed
      have "parseInt (?sign @ digits s @ replicate z (CHR ''0'')) =
            Some (toNumber (?sg * (s * 10 ^ z)))"
        using s0 by (rule parseInt_signed)
      also have "toNumber (?sg * (s * 10 ^ z)) = ?sg * toNumber (s * 10 ^ z)"
        using toNumber_minus [of "s * 10 ^ z"] by simp
      also have "\<dots> = v" using val v by simp
      finally have "parseInt (?sign @ digits s @ replicate z (CHR ''0'')) = Some v" .
      with False fin Some t plain show ?thesis by (simp add: toString_def Let_def)
    qed
  qed
qed

lemma plainVersion_small: "\<bar>v\<bar> < 2 ^ 53 \<Longrightarrow> plainVersion v"
proof -
  assume a: "\<bar>v\<bar> < 2 ^ 53"
  have "(2::int) ^ 53 \<le> 10 ^ 21" by simp
  with a have "\<bar>v\<bar> < 10 ^ 21" by linarith
  moreover have "toNumber v = v"
  proof -
    have "(2::int) ^ 53 \<le> 2 ^ 1024" by (rule power_increasing) simp_all
    with a have "\<bar>v\<bar> \<le> infinity" by (simp add: infinity_def)
    then have "min \<bar>v\<bar> infinity = \<bar>v\<bar>" by simp
    with a show ?thesis by (simp add: toNumber_def Let_def mult_sgn_abs)
  qed
  ultimately show ?thesis by (simp add: plainVersion_def)
qed

lemma parseInt_zero: "parseInt ''0'' = Some 0"
  by (simp add: parseInt_def isWhiteSpace_def isRadixDigit_def digitVal_def toNumber_def)

lemma toString_not_Nil: "toString v \<noteq> []"
  by (auto simp: toString_def Let_def digits_not_Nil split: option.splits list.splits)

section \<open>Substring search\<close>




lemma trim_Nil: "trim [] = []"
  by (simp add: trim_def)

section \<open>What a search returns\<close>



section \<open>A keyword of white space\<close>

text \<open>
  C8. \<open>handleSearch\<close> trims the value of the search input before it calls \<open>searchItems\<close>.
  For every input whose trimmed form is empty, white space only included, the search
  runs as for the empty input: no text filter is applied, and on a connected database
  the result is the stored records of the category (all of them for \<open>all\<close>).
\<close>

theorem handleSearch_blank_keyword:
  "trim raw = [] \<Longrightarrow>
   handleSearch (app\<lparr>searchInput := raw\<rparr>) =
     (handleSearch (app\<lparr>searchInput := []\<rparr>))\<lparr>searchInput := raw\<rparr> \<and>
   fst (searchItems (trim raw) category d) = fst (searchItems [] category d) \<and>
   (db d \<longrightarrow>
      fst (searchItems (trim raw) category d) =
        Inr (filter (\<lambda>item. category = ''all'' \<or> type item = category) (store_getAll (idb d))))"
  by (auto simp: handleSearch_def Let_def trim_Nil searchItems_def split: prod.splits sum.splits)

theorem handleSearch_blank_keyword_witness:
  "trim [CHR '' '', CHR 0x09, CHR '' ''] = [] \<and>
   results (handleSearch \<lparr>d2db = runeDb, currentCategory = ''quest'', versionSlot = None,
       searchInput = [CHR '' '', CHR 0x09, CHR '' ''], results = [], overlayHidden = True,
       loadingText = None, alerts = []\<rparr>) =
     [snd (seedRecord 3 (newItem ''quest'' ''Amulet'' ''x''))]"
proof -
  let ?raw = "[CHR '' '', CHR 0x09, CHR '' '']"
  let ?app = "\<lparr>d2db = runeDb, currentCategory = ''quest'', versionSlot = None,
       searchInput = ?raw, results = [], overlayHidden = True,
       loadingText = None, alerts = []\<rparr>"
  have t: "trim ?raw = []" by (simp add: trim_def isWhiteSpace_def)
  have "results (handleSearch (?app\<lparr>searchInput := []\<rparr>)) =
        [snd (seedRecord 3 (newItem ''quest'' ''Amulet'' ''x''))]"
    by (simp add: handleSearch_def trim_Nil searchItems_def runeDb_eval store_getAll_def
        customRecord_def seedRecord_def elRune_def eldRune_def newItem_def)
  with handleSearch_blank_keyword [OF t, of ?app] t show ?thesis by simp
qed

text \<open>The trimming is \<open>handleSearch\<close>'s: \<open>searchItems\<close> takes its keyword as it is, and a
  keyword of two spaces filters by two spaces.\<close>

lemma searchItems_keeps_white_space:
  "fst (searchItems [CHR '' '', CHR '' ''] ''all'' runeDb) = Inr [] \<and>
   fst (searchItems [] ''all'' runeDb) =
     Inr [snd (customRecord 1 elRune), snd (seedRecord 2 eldRune),
          snd (seedRecord 3 (newItem ''quest'' ''Amulet'' ''x''))]"
  by code_simp

section \<open>One start of the application\<close>

lemma searchItems_state: "snd (searchItems keyword category d) = d"
  by (simp add: searchItems_def Let_def)

lemma handleSearch_fields:
  "d2db (handleSearch app) = d2db app"
  "versionSlot (handleSearch app) = versionSlot app"
  "overlayHidden (handleSearch app) = overlayHidden app"
  "alerts (handleSearch app) = alerts app"
  using searchItems_state [of "trim (searchInput app)" "currentCategory app" "d2db app"]
  by (auto simp: handleSearch_def Let_def split: prod.splits sum.splits)

lemma updateSeedData_unresolved:
  "updateSeedData newItems d = (r, d') \<Longrightarrow> r \<noteq> Some (Inr ()) \<Longrightarrow> d' = d"
  by (auto simp: updateSeedData_def split: if_splits prod.splits sum.splits option.splits)

text \<open>The three ways the update block ends: the seed data is replaced and the watermark
  written; the download or the update is rejected, which is alerted; or \<open>updateSeedData\<close>
  stays pending, and the overlay stays open.\<close>

lemma applyUpdate_cases:
  "(\<exists>items d'. dataFile = Fetched (Some items) \<and>
       updateSeedData (Some items) (d2db app) = (Some (Inr ()), d') \<and>
       d2db (applyUpdate v dataFile app) = d' \<and>
       versionSlot (applyUpdate v dataFile app) = Some (toString v) \<and>
       alerts (applyUpdate v dataFile app) = alerts app \<and>
       overlayHidden (applyUpdate v dataFile app)) \<or>
   ((\<forall>items. dataFile = Fetched items \<longrightarrow>
        (\<exists>e. fst (updateSeedData items (d2db app)) = Some (Inl e))) \<and>
       d2db (applyUpdate v dataFile app) = d2db app \<and>
       versionSlot (applyUpdate v dataFile app) = versionSlot app \<and>
       alerts (applyUpdate v dataFile app) = alerts app @ [UpdateProblem] \<and>
       overlayHidden (applyUpdate v dataFile app)) \<or>
   ((\<exists>items. dataFile = Fetched items \<and> fst (updateSeedData items (d2db app)) = None) \<and>
       d2db (applyUpdate v dataFile app) = d2db app \<and>
       versionSlot (applyUpdate v dataFile app) = versionSlot app \<and>
       alerts (applyUpdate v dataFile app) = alerts app \<and>
       \<not> overlayHidden (applyUpdate v dataFile app))"
proof (cases dataFile)
  case (Fetched items)
  obtain r d' where u: "updateSeedData items (d2db app) = (r, d')"
    by (cases "updateSeedData items (d2db app)")
  show ?thesis
  proof (cases r)
    case None
    with u updateSeedData_unresolved [OF u] Fetched show ?thesis
      by (simp add: applyUpdate_def Let_def showLoading_def)
  next
    case (Some res)
    show ?thesis
    proof (cases res)
      case (Inl e)
      with Some u updateSeedData_unresolved [OF u] Fetched show ?thesis
        by (simp add: applyUpdate_def Let_def showLoading_def hideLoading_def alert_def)
    next
      case (Inr x)
      with Some u have "\<exists>batch. items = Some batch"
        by (auto simp: updateSeedData_def split: if_splits option.splits)
      then obtain batch where "items = Some batch" ..
      with Inr Some u Fetched show ?thesis
        by (simp add: applyUpdate_def Let_def showLoading_def hideLoading_def handleSearch_fields)
    qed
  qed
qed (simp_all add: applyUpdate_def Let_def showLoading_def hideLoading_def alert_def)

lemma currentVersion_written:
  "versionSlot app = Some (toString v) \<Longrightarrow> plainVersion v \<Longrightarrow> currentVersion app = Some v"
  by (simp add: currentVersion_def getItemOrZero_def toString_not_Nil parseInt_toString)

lemma currentVersion_slot:
  "versionSlot app' = versionSlot app \<Longrightarrow> currentVersion app' = currentVersion app"
  by (simp add: currentVersion_def)

lemma checkAndLoadData_cases:
  "checkAndLoadData versionFile dataFile app = app \<or>
   (\<exists>v w. versionFile = Fetched v \<and> currentVersion app = Some w \<and> w < v \<and>
      checkAndLoadData versionFile dataFile app = applyUpdate v dataFile app)"
  by (cases versionFile)
     (auto simp: checkAndLoadData_def greaterThan_def split: option.splits)

lemma checkAndLoadData_slot:
  "versionSlot (checkAndLoadData versionFile dataFile app) = versionSlot app \<or>
   (\<exists>v items d' w. versionFile = Fetched v \<and> dataFile = Fetched (Some items) \<and>
       updateSeedData (Some items) (d2db app) = (Some (Inr ()), d') \<and>
       d2db (checkAndLoadData versionFile dataFile app) = d' \<and>
       versionSlot (checkAndLoadData versionFile dataFile app) = Some (toString v) \<and>
       currentVersion app = Some w \<and> w < v \<and>
       (plainVersion v \<longrightarrow> currentVersion (checkAndLoadData versionFile dataFile app) = Some v))"
proof -
  from checkAndLoadData_cases [of versionFile dataFile app] show ?thesis
  proof (elim disjE exE conjE)
    assume "checkAndLoadData versionFile dataFile app = app"
    then show ?thesis by simp
  next
    fix v w
    assume vf: "versionFile = Fetched v" and w: "currentVersion app = Some w" "w < v"
      and eq: "checkAndLoadData versionFile dataFile app = applyUpdate v dataFile app"
    from applyUpdate_cases [of dataFile app v] show ?thesis
    proof (elim disjE exE conjE)
      fix items d'
      assume "dataFile = Fetched (Some items)"
        "updateSeedData (Some items) (d2db app) = (Some (Inr ()), d')"
        "d2db (applyUpdate v dataFile app) = d'"
        "versionSlot (applyUpdate v dataFile app) = Some (toString v)"
      with vf w eq currentVersion_written [of "applyUpdate v dataFile app" v]
      show ?thesis by auto
    next
      assume "versionSlot (applyUpdate v dataFile app) = versionSlot app"
        "alerts (applyUpdate v dataFile app) = alerts app @ [UpdateProblem]"
      with eq show ?thesis by simp
    next
      assume "versionSlot (applyUpdate v dataFile app) = versionSlot app"
        "alerts (applyUpdate v dataFile app) = alerts app"
      with eq show ?thesis by simp
    qed
  qed
qed

lemma checkAndLoadData_monotone:
  assumes "currentVersion app = Some w" and "plainRun (versionFile, dataFile)"
  shows "\<exists>w'. currentVersion (checkAndLoadData versionFile dataFile app) = Some w' \<and> w \<le> w'"
proof -
  from checkAndLoadData_slot [of versionFile dataFile app] show ?thesis
  proof (elim disjE exE conjE)
    assume "versionSlot (checkAndLoadData versionFile dataFile app) = versionSlot app"
    then have "currentVersion (checkAndLoadData versionFile dataFile app) = currentVersion app"
      by (rule currentVersion_slot)
    with assms show ?thesis by simp
  next
    fix v w0
    assume vf: "versionFile = Fetched v"
      and new: "plainVersion v \<longrightarrow>
        currentVersion (checkAndLoadData versionFile dataFile app) = Some v"
      and old: "currentVersion app = Some w0" "w0 < v"
    from assms(2) vf have "plainVersion v" by (simp add: plainRun_def)
    with new old assms(1) show ?thesis by simp
  qed
qed

lemma startups_monotone:
  "list_all plainRun runs \<Longrightarrow> currentVersion app = Some w \<Longrightarrow>
   \<exists>w'. currentVersion (startups runs app) = Some w' \<and> w \<le> w'"
proof (induction runs arbitrary: app w)
  case Nil
  then show ?case by simp
next
  case (Cons run runs)
  obtain versionFile dataFile where run: "run = (versionFile, dataFile)" by (cases run)
  from Cons.prems(1) run have p: "plainRun (versionFile, dataFile)" and ps: "list_all plainRun runs"
    by simp_all
  from checkAndLoadData_monotone [OF Cons.prems(2) p]
  obtain w1 where w1: "currentVersion (checkAndLoadData versionFile dataFile app) = Some w1" "w \<le> w1"
    by blast
  from Cons.IH [OF ps w1(1)] obtain w' where
    "currentVersion (startups runs (checkAndLoadData versionFile dataFile app)) = Some w'" "w1 \<le> w'"
    by blast
  with w1(2) run show ?case by auto
qed

text \<open>What does hold when the update is refused: after the gate has fired, a failed
  download and a rejected \<open>updateSeedData\<close> end with the overlay hidden, one more alert,
  and the watermark and the database as before.\<close>

lemma update_rejected:
  assumes "greaterThan v (currentVersion app)"
    and "\<forall>items. dataFile = Fetched items \<longrightarrow>
           (\<exists>e. fst (updateSeedData items (d2db app)) = Some (Inl e))"
  shows "\<not> overlayHidden (showLoading (FetchingNewData v) app) \<and>
         overlayHidden (checkAndLoadData (Fetched v) dataFile app) \<and>
         alerts (checkAndLoadData (Fetched v) dataFile app) = alerts app @ [UpdateProblem] \<and>
         versionSlot (checkAndLoadData (Fetched v) dataFile app) = versionSlot app \<and>
         d2db (checkAndLoadData (Fetched v) dataFile app) = d2db app"
proof -
  have eq: "checkAndLoadData (Fetched v) dataFile app = applyUpdate v dataFile app"
    using assms(1) by (simp add: checkAndLoadData_def)
  from applyUpdate_cases [of dataFile app v] assms(2)
  have "d2db (applyUpdate v dataFile app) = d2db app \<and>
        versionSlot (applyUpdate v dataFile app) = versionSlot app \<and>
        alerts (applyUpdate v dataFile app) = alerts app @ [UpdateProblem] \<and>
        overlayHidden (applyUpdate v dataFile app)"
    by auto
  with eq show ?thesis
    by (simp add: showLoading_def)
qed

section \<open>The version gate\<close>

text \<open>
  C3. With a remote version \<open>v\<close> and a stored watermark that reads as the number \<open>w\<close>,
  \<open>checkAndLoadData\<close> runs the update (\<open>applyUpdate\<close>) if and only if \<open>w < v\<close>; for \<open>v = w\<close>
  and \<open>v < w\<close> it returns the application unchanged, the store included. When nothing
  was ever stored under the version key the watermark reads as 0, so the update runs
  exactly when \<open>0 < v\<close>.
\<close>

theorem version_gate:
  "greaterThan v (Some w) = (w < v) \<and>
   (currentVersion app = Some w \<longrightarrow>
      checkAndLoadData (Fetched v) dataFile app =
        (if w < v then applyUpdate v dataFile app else app)) \<and>
   (versionSlot app = None \<longrightarrow>
      currentVersion app = Some 0 \<and>
      checkAndLoadData (Fetched v) dataFile app =
        (if 0 < v then applyUpdate v dataFile app else app))"
  by (simp add: checkAndLoadData_def greaterThan_def currentVersion_def getItemOrZero_def
      parseInt_zero)

theorem version_gate_witness:
  "currentVersion versionThreeApp = Some 3 \<and>
   checkAndLoadData (Fetched 3) (Fetched (Some [eldRune])) versionThreeApp = versionThreeApp \<and>
   checkAndLoadData (Fetched 2) (Fetched (Some [eldRune])) versionThreeApp = versionThreeApp \<and>
   checkAndLoadData (Fetched 4) (Fetched (Some [eldRune])) versionThreeApp =
     applyUpdate 4 (Fetched (Some [eldRune])) versionThreeApp \<and>
   versionSlot startApp = None \<and>
   checkAndLoadData (Fetched 1) (Fetched (Some [eldRune])) startApp =
     applyUpdate 1 (Fetched (Some [eldRune])) startApp"
proof -
  have cv: "currentVersion versionThreeApp = Some 3" by code_simp
  have n: "versionSlot startApp = None" by (simp add: startApp_def)
  from version_gate [of 3 3 versionThreeApp "Fetched (Some [eldRune])"]
       version_gate [of 2 3 versionThreeApp "Fetched (Some [eldRune])"]
       version_gate [of 4 3 versionThreeApp "Fetched (Some [eldRune])"]
       version_gate [of 1 0 startApp "Fetched (Some [eldRune])"] cv n
  show ?thesis by simp
qed

section \<open>A failed update\<close>

text \<open>
  C5 says that once the gate has fired and the overlay is shown, a failure of the
  download or of the seed update always ends with the overlay hidden and the failure
  alerted. That holds when the download fails or \<open>updateSeedData\<close> rejects, but not when
  the seed update fails without settling its promise. For a \<open>data.json\<close> that parses but
  has no \<open>items\<close>, on a connected database with an absent watermark and remote version 1:
  the gate fires, \<open>updateSeedData\<close> stays pending with the store as it was, and the
  state is left with the overlay shown, its text the one of the database step, and no
  alert.
\<close>

theorem update_left_pending:
  "greaterThan 1 (currentVersion customApp) \<and>
   updateSeedData None (d2db customApp) = (None, customDb) \<and>
   \<not> overlayHidden (checkAndLoadData (Fetched 1) (Fetched None) customApp) \<and>
   loadingText (checkAndLoadData (Fetched 1) (Fetched None) customApp) = Some OptimizingDatabase \<and>
   alerts (checkAndLoadData (Fetched 1) (Fetched None) customApp) = [] \<and>
   versionSlot (checkAndLoadData (Fetched 1) (Fetched None) customApp) = None \<and>
   d2db (checkAndLoadData (Fetched 1) (Fetched None) customApp) = customDb"
proof -
  have g: "greaterThan 1 (currentVersion customApp)"
    by (simp add: customApp_def startApp_def currentVersion_def getItemOrZero_def parseInt_zero
        greaterThan_def)
  have c: "db customDb" by (simp add: example_defs store_defs)
  have u: "updateSeedData None (d2db customApp) = (None, customDb)"
    using c by (simp add: customApp_def updateSeedData_def)
  show ?thesis
    using g u
    by (simp add: checkAndLoadData_def applyUpdate_def Let_def showLoading_def)
       (simp add: customApp_def startApp_def)
qed

section \<open>The watermark and the versions written in plain digits\<close>

text \<open>
  C6, for the versions that \<open>toString\<close> writes in plain digits (the numbers of magnitude
  below \<open>10\<^sup>2\<^sup>1\<close>). An absent watermark reads as 0. One start of the application either
  leaves the stored watermark as it is, or \<open>updateSeedData\<close> has resolved for the
  downloaded items and the watermark is the remote version \<open>v\<close>, printed, with \<open>v\<close>
  strictly greater than the watermark read at that start; a version in plain digits
  reads back as \<open>v\<close>. Over any series of starts with such versions a watermark that
  reads as a number \<open>u\<close> reads as a number not below \<open>u\<close> afterwards.
\<close>

theorem watermark_monotone:
  "(versionSlot app = None \<longrightarrow> currentVersion app = Some 0) \<and>
   (versionSlot (checkAndLoadData versionFile dataFile app) = versionSlot app \<or>
    (\<exists>v items d' w. versionFile = Fetched v \<and> dataFile = Fetched (Some items) \<and>
        updateSeedData (Some items) (d2db app) = (Some (Inr ()), d') \<and>
        d2db (checkAndLoadData versionFile dataFile app) = d' \<and>
        versionSlot (checkAndLoadData versionFile dataFile app) = Some (toString v) \<and>
        currentVersion app = Some w \<and> w < v \<and>
        (plainVersion v \<longrightarrow>
           currentVersion (checkAndLoadData versionFile dataFile app) = Some v))) \<and>
   (list_all plainRun runs \<and> currentVersion app = Some u \<longrightarrow>
      (\<exists>u'. currentVersion (startups runs app) = Some u' \<and> u \<le> u'))"
proof (intro conjI impI)
  assume "versionSlot app = None"
  then show "currentVersion app = Some 0"
    by (simp add: currentVersion_def getItemOrZero_def parseInt_zero)
next
  show "versionSlot (checkAndLoadData versionFile dataFile app) = versionSlot app \<or>
    (\<exists>v items d' w. versionFile = Fetched v \<and> dataFile = Fetched (Some items) \<and>
        updateSeedData (Some items) (d2db app) = (Some (Inr ()), d') \<and>
        d2db (checkAndLoadData versionFile dataFile app) = d' \<and>
        versionSlot (checkAndLoadData versionFile dataFile app) = Some (toString v) \<and>
        currentVersion app = Some w \<and> w < v \<and>
        (plainVersion v \<longrightarrow>
           currentVersion (checkAndLoadData versionFile dataFile app) = Some v))"
    by (rule checkAndLoadData_slot)
next
  assume "list_all plainRun runs \<and> currentVersion app = Some u"
  then show "\<exists>u'. currentVersion (startups runs app) = Some u' \<and> u \<le> u'"
    using startups_monotone by blast
qed

theorem watermark_monotone_witness:
  "versionSlot startApp = None \<and> currentVersion startApp = Some 0 \<and> plainVersion 3 \<and>
   versionSlot (checkAndLoadData (Fetched 3) (Fetched (Some [eldRune])) startApp) = Some ''3'' \<and>
   currentVersion (checkAndLoadData (Fetched 3) (Fetched (Some [eldRune])) startApp) = Some 3 \<and>
   list_all plainRun [(Fetched 3, Fetched (Some [eldRune])), (Fetched 3, Fetched (Some [eldRune])),
      (Fetched 2, Fetched (Some []))] \<and>
   currentVersion (startups [(Fetched 3, Fetched (Some [eldRune])),
      (Fetched 3, Fetched (Some [eldRune])), (Fetched 2, Fetched (Some []))] startApp) = Some 3"
proof -
  let ?runs = "[(Fetched 3, Fetched (Some [eldRune])), (Fetched 3, Fetched (Some [eldRune])),
      (Fetched 2, Fetched (Some []))]"
  have n: "versionSlot startApp = None" by (simp add: startApp_def)
  have p3: "plainVersion 3" by (rule plainVersion_small) simp
  have p2: "plainVersion 2" by (rule plainVersion_small) simp
  have ps: "list_all plainRun ?runs" using p3 p2 by (simp add: plainRun_def)
  have a: "versionSlot (checkAndLoadData (Fetched 3) (Fetched (Some [eldRune])) startApp) = Some ''3''"
    by code_simp
  have a': "currentVersion (checkAndLoadData (Fetched 3) (Fetched (Some [eldRune])) startApp) = Some 3"
    by code_simp
  have b: "currentVersion (startups ?runs startApp) = Some 3"
    by code_simp
  from watermark_monotone [of startApp "Fetched 3" "Fetched (Some [eldRune])" ?runs 0]
  have z: "currentVersion startApp = Some 0" using n by blast
  from n z p3 a a' ps b show ?thesis by (intro conjI)
qed

text \<open>From \<open>10\<^sup>2\<^sup>1\<close> on the watermark is not the version that was applied. With the
  watermark at 5, the remote version \<open>10\<^sup>2\<^sup>1\<close> is applied and written as \<open>1e+21\<close>, which
  reads back as 1; at the next start the lower version 2 passes the gate and is applied.\<close>

theorem watermark_drops:
  "currentVersion versionFiveApp = Some 5 \<and>
   versionSlot (checkAndLoadData (Fetched (10 ^ 21)) (Fetched (Some [eldRune])) versionFiveApp) =
     Some ''1e+21'' \<and>
   currentVersion (checkAndLoadData (Fetched (10 ^ 21)) (Fetched (Some [eldRune])) versionFiveApp) =
     Some 1 \<and>
   currentVersion (startups [(Fetched (10 ^ 21), Fetched (Some [eldRune])),
      (Fetched 2, Fetched (Some [eldRune]))] versionFiveApp) = Some 2"
  by code_simp

section \<open>A watermark that is not a number\<close>

text \<open>
  C10. If the slot of the version key holds a non-empty string that \<open>parseInt\<close> reads as
  \<open>NaN\<close>, the current version is \<open>NaN\<close>, no remote version is greater than it, and
  \<open>checkAndLoadData\<close> leaves the application, the slot included, as it is, at this start
  and at every later one: the default 0 stands in only for an absent or empty slot.
\<close>

theorem corrupted_watermark:
  assumes "versionSlot app = Some s" and "s \<noteq> []" and "parseInt s = None"
  shows "currentVersion app = None \<and>
         \<not> greaterThan v (currentVersion app) \<and>
         checkAndLoadData versionFile dataFile app = app \<and>
         startups runs app = app"
proof -
  have cv: "currentVersion app = None"
    using assms by (simp add: currentVersion_def getItemOrZero_def)
  have one: "checkAndLoadData vf df app = app" for vf df
    using cv by (cases vf) (simp_all add: checkAndLoadData_def greaterThan_def)
  have "startups runs app = app"
    by (induction runs) (auto simp: one)
  with cv one show ?thesis by (simp add: greaterThan_def)
qed

theorem corrupted_watermark_witness:
  "versionSlot corruptedApp = Some ''abc'' \<and> ''abc'' \<noteq> [] \<and> parseInt ''abc'' = None \<and>
   checkAndLoadData (Fetched 7) (Fetched (Some [eldRune])) corruptedApp = corruptedApp \<and>
   startups [(Fetched 7, Fetched (Some [eldRune])), (Fetched 8, Fetched (Some []))] corruptedApp =
     corruptedApp"
proof -
  have v: "versionSlot corruptedApp = Some ''abc''" by (simp add: corruptedApp_def)
  have e: "''abc'' \<noteq> []" by simp
  have p: "parseInt ''abc'' = None" by code_simp
  from corrupted_watermark [OF v e p] v p show ?thesis by simp
qed

end
